theory Spec2Isabelle
  imports Main "HOL-Library.Sublist" "HOL-Library.Word"
begin

section \<open>Chromix Three: the relay server and the extension's URL matcher\<close>

text \<open>
  The relay (\<^verbatim>\<open>chromix-three-server.js\<close> and its \<^verbatim>\<open>websocket\<close> module) is an event-driven
  Node.js program with two module-level variables, \<^verbatim>\<open>extensionSocket\<close> and
  \<^verbatim>\<open>pendingRequest\<close>. It is modelled as a deterministic step function on an explicit
  state: one step per callback that the event loop runs to completion (an HTTP request, a
  WebSocket connection, message, close or error, a timer firing). Promises and timer
  handles are objects with identity in JavaScript; here they are natural numbers handed out
  by counters of the state.
\<close>

subsection \<open>JavaScript values as far as the relay looks at them\<close>

text \<open>
  A value produced by \<^verbatim>\<open>JSON.parse\<close>. Objects keep the order of their keys (it shows in
  \<^verbatim>\<open>JSON.stringify\<close>); a parsed object has no duplicate key. A number is a double; the
  relay only tests numbers for truthiness and converts them to strings, so a number is
  represented by the string that \<^verbatim>\<open>Number.prototype.toString\<close> gives for it
  (\<^verbatim>\<open>0\<close> for both zeros, \<^verbatim>\<open>1e+21\<close>, \<^verbatim>\<open>Infinity\<close> for \<^verbatim>\<open>1e999\<close>).
\<close>

datatype json =
    JNull
  | JBool bool
  | JNumber string
  | JString string
  | JArray "json list"
  | JObject "(string \<times> json) list"

text \<open>The exceptions of the source: each has the \<^verbatim>\<open>message\<close> the handlers read.\<close>

datatype js_error =
    SyntaxError string
  | TypeError string
  | Error string

fun message :: "js_error \<Rightarrow> string" where
  "message (SyntaxError m) = m"
| "message (TypeError m) = m"
| "message (Error m) = m"

text \<open>
  A text that reaches \<^verbatim>\<open>JSON.parse\<close> (an HTTP body, a WebSocket frame) is represented by
  what \<^verbatim>\<open>JSON.parse\<close> does with it: it either raises a \<^verbatim>\<open>SyntaxError\<close> with some
  message, or returns a value.
\<close>

datatype raw =
    Unparseable string
  | Parses json

fun JSON_parse :: "raw \<Rightarrow> js_error + json" where
  "JSON_parse (Unparseable m) = Inl (SyntaxError m)"
| "JSON_parse (Parses v) = Inr v"

text \<open>
  Property access \<^verbatim>\<open>v.k\<close> for the keys the relay reads (\<^verbatim>\<open>command\<close>, \<^verbatim>\<open>url\<close>,
  \<^verbatim>\<open>id\<close>, \<^verbatim>\<open>success\<close>, \<^verbatim>\<open>data\<close>): on an object it is the value stored under the
  key or \<^verbatim>\<open>undefined\<close> (here \<open>None\<close>), on a number, string, boolean or array it is
  \<^verbatim>\<open>undefined\<close> (\<open>field\<close>); on \<^verbatim>\<open>null\<close> it raises a \<^verbatim>\<open>TypeError\<close>
  (\<open>get_prop\<close>), with the message that current versions of Node.js give it.
\<close>

fun field :: "json \<Rightarrow> string \<Rightarrow> json option" where
  "field (JObject kvs) k = map_of kvs k"
| "field v k = None"

fun get_prop :: "json \<Rightarrow> string \<Rightarrow> js_error + json option" where
  "get_prop JNull k =
     Inl (TypeError (''Cannot read properties of null (reading '' @ [CHR 0x27] @ k @ [CHR 0x27] @ '')''))"
| "get_prop v k = Inr (field v k)"

text \<open>Assignment \<^verbatim>\<open>obj.k = v\<close>: an existing key keeps its place, a new key goes last.\<close>

fun set_field :: "(string \<times> json) list \<Rightarrow> string \<Rightarrow> json \<Rightarrow> (string \<times> json) list" where
  "set_field [] k v = [(k, v)]"
| "set_field ((k', v') # kvs) k v =
     (if k' = k then (k, v) # kvs else (k', v') # set_field kvs k v)"

fun set_prop :: "json \<Rightarrow> string \<Rightarrow> json \<Rightarrow> json" where
  "set_prop (JObject kvs) k v = JObject (set_field kvs k v)"
| "set_prop x k v = x"

text \<open>Truthiness, as \<^verbatim>\<open>!x\<close>, \<^verbatim>\<open>x || y\<close> and \<^verbatim>\<open>if (x)\<close> test it; \<open>None\<close> is \<^verbatim>\<open>undefined\<close>.\<close>

fun truthy :: "json option \<Rightarrow> bool" where
  "truthy None = False"
| "truthy (Some JNull) = False"
| "truthy (Some (JBool b)) = b"
| "truthy (Some (JNumber n)) = (n \<noteq> ''0'' \<and> n \<noteq> ''NaN'')"
| "truthy (Some (JString s)) = (s \<noteq> [])"
| "truthy (Some (JArray xs)) = True"
| "truthy (Some (JObject kvs)) = True"

text \<open>\<^verbatim>\<open>x || y\<close> where \<^verbatim>\<open>y\<close> is a value: \<^verbatim>\<open>x\<close> if it is truthy, else \<^verbatim>\<open>y\<close>.\<close>

fun or_else :: "json option \<Rightarrow> json \<Rightarrow> json" where
  "or_else None y = y"
| "or_else (Some x) y = (if truthy (Some x) then x else y)"

text \<open>
  Decimal digits of a natural number. The numbers that the relay itself prints, the value
  of \<^verbatim>\<open>Date.now()\<close> and the request counter, are integers far below \<open>2\<^sup>5\<^sup>3\<close> in every
  run; \<^verbatim>\<open>${n}\<close> prints such a number with all its digits.
\<close>

definition digit :: "nat \<Rightarrow> char" where
  "digit d = ''0123456789'' ! d"

function show_nat :: "nat \<Rightarrow> string" where
  "show_nat n = (if n < 10 then [digit n] else show_nat (n div 10) @ [digit (n mod 10)])"
  by pat_completeness auto
termination
  by (relation "measure (\<lambda>n. n)") auto

fun join :: "string \<Rightarrow> string list \<Rightarrow> string" where
  "join sep [] = []"
| "join sep [x] = x"
| "join sep (x # y # ys) = x @ sep @ join sep (y # ys)"

text \<open>
  The conversion to a string that \<^verbatim>\<open>new Error(v)\<close> and template literals apply. An array
  joins the conversions of its elements with commas (\<^verbatim>\<open>null\<close> elements print as
  nothing). An object is converted by its \<^verbatim>\<open>toString\<close> method: a parsed object inherits
  the one that returns \<^verbatim>\<open>[object Object]\<close>, unless it has a key \<^verbatim>\<open>toString\<close> of its
  own, whose value is never a function; then neither \<^verbatim>\<open>toString\<close> nor \<^verbatim>\<open>valueOf\<close>
  yields a primitive value and the conversion raises a \<^verbatim>\<open>TypeError\<close>. The conversion of
  an array raises at the first element whose conversion raises.
\<close>

fun ToString :: "json \<Rightarrow> js_error + string"
  and ToString_elements :: "json list \<Rightarrow> js_error + string list" where
  "ToString JNull = Inr ''null''"
| "ToString (JBool b) = Inr (if b then ''true'' else ''false'')"
| "ToString (JNumber n) = Inr n"
| "ToString (JString s) = Inr s"
| "ToString (JArray xs) =
     (case ToString_elements xs of Inl e \<Rightarrow> Inl e | Inr ss \<Rightarrow> Inr (join '','' ss))"
| "ToString (JObject kvs) =
     (if ''toString'' \<in> set (map fst kvs)
      then Inl (TypeError ''Cannot convert object to primitive value'')
      else Inr ''[object Object]'')"
| "ToString_elements [] = Inr []"
| "ToString_elements (x # xs) =
     (case (if x = JNull then Inr [] else ToString x) of
        Inl e \<Rightarrow> Inl e
      | Inr s \<Rightarrow> (case ToString_elements xs of Inl e \<Rightarrow> Inl e | Inr ss \<Rightarrow> Inr (s # ss)))"

text \<open>A template literal's \<^verbatim>\<open>${x}\<close>; \<open>None\<close> is \<^verbatim>\<open>undefined\<close>.\<close>

fun template :: "json option \<Rightarrow> js_error + string" where
  "template None = Inr ''undefined''"
| "template (Some v) = ToString v"

subsection \<open>The state of the relay process\<close>

type_synonym sock = nat
type_synonym caller = nat
type_synonym timer = nat

text \<open>
  \<^verbatim>\<open>pendingRequest = { id, resolve, reject, timeout }\<close>. The two callbacks settle the
  promise that \<^verbatim>\<open>sendToExtension\<close> returned to one HTTP caller, so the entry stores that
  caller; \<open>timeout\<close> is the handle \<^verbatim>\<open>setTimeout\<close> returned.
\<close>

record pending =
  req_id :: string
  resolve_reject :: caller
  timeout :: timer

text \<open>
  An armed timer: the closure \<^verbatim>\<open>() => { pendingRequest = null; reject(...) }\<close> captured
  the \<^verbatim>\<open>reject\<close> of one caller; the delay is the second argument of \<^verbatim>\<open>setTimeout\<close>.
\<close>

record armed =
  rejects :: caller
  delay_ms :: nat

datatype outcome =
    Resolved json
  | Rejected js_error

text \<open>
  What \<^verbatim>\<open>res.writeHead\<close> and \<^verbatim>\<open>res.end\<close> wrote: the status and, if there is a body, the
  value that was handed to \<^verbatim>\<open>JSON.stringify\<close>.
\<close>

record http_response =
  status :: nat
  payload :: "json option"

record state =
  extensionSocket :: "sock option"
  pendingRequest :: "pending option"
  requestIdCounter :: nat
  readyState :: "sock \<Rightarrow> nat option"
  timers :: "timer \<Rightarrow> armed option"
  nextTimer :: nat
  promises :: "caller \<Rightarrow> outcome option"
  replies :: "caller \<Rightarrow> http_response option"
  nextCaller :: nat
  sent :: "(sock \<times> json) list"
  console :: "string list"

text \<open>
  \<open>readyState\<close> is the \<^verbatim>\<open>ws\<close> library's field of each socket object (\<open>None\<close>: no
  such socket yet; 1 is OPEN, 2 CLOSING, 3 CLOSED). \<open>promises\<close> holds the settled promises
  of \<^verbatim>\<open>sendToExtension\<close>, \<open>replies\<close> the HTTP responses written so far, \<open>sent\<close> the
  requests whose \<^verbatim>\<open>JSON.stringify\<close> was passed to \<^verbatim>\<open>extensionSocket.send\<close>, each with the
  socket it was sent on, \<open>console\<close> the lines logged.
\<close>

definition init_state :: state where
  "init_state =
     \<lparr> extensionSocket = None, pendingRequest = None, requestIdCounter = 0,
       readyState = (\<lambda>_. None), timers = (\<lambda>_. None), nextTimer = 0,
       promises = (\<lambda>_. None), replies = (\<lambda>_. None), nextCaller = 0,
       sent = [], console = [] \<rparr>"

definition log_line :: "string \<Rightarrow> state \<Rightarrow> state" where
  "log_line l s = s\<lparr>console := console s @ [l]\<rparr>"

definition clearTimeout :: "timer \<Rightarrow> state \<Rightarrow> state" where
  "clearTimeout t s = s\<lparr>timers := (timers s)(t := None)\<rparr>"

subsection \<open>The HTTP handler's continuation\<close>

text \<open>
  \<^verbatim>\<open>handleRequest\<close> awaits the promise inside \<^verbatim>\<open>try\<close>: once it is fulfilled the
  handler writes 200 with the response, once it is rejected the \<^verbatim>\<open>catch\<close> logs and
  writes 500. The continuation runs as soon as the callback that settled the promise
  returns, before any other event, so it is part of the settling step.
\<close>

definition write_reply :: "caller \<Rightarrow> nat \<Rightarrow> json option \<Rightarrow> state \<Rightarrow> state" where
  "write_reply c code b s = s\<lparr>replies := (replies s)(c \<mapsto> \<lparr>status = code, payload = b\<rparr>)\<rparr>"

definition reply_error :: "caller \<Rightarrow> js_error \<Rightarrow> state \<Rightarrow> state" where
  "reply_error c e s =
     write_reply c 500
       (Some (JObject [(''success'', JBool False), (''error'', JString (message e))]))
       (log_line (''[HTTP] Error: '' @ message e) s)"

text \<open>A promise settles once: \<^verbatim>\<open>resolve\<close> and \<^verbatim>\<open>reject\<close> on a settled promise do nothing.\<close>

definition resolve :: "caller \<Rightarrow> json \<Rightarrow> state \<Rightarrow> state" where
  "resolve c v s =
     (if promises s c \<noteq> None then s
      else write_reply c 200 (Some v) (s\<lparr>promises := (promises s)(c \<mapsto> Resolved v)\<rparr>))"

definition reject :: "caller \<Rightarrow> js_error \<Rightarrow> state \<Rightarrow> state" where
  "reject c e s =
     (if promises s c \<noteq> None then s
      else reply_error c e (s\<lparr>promises := (promises s)(c \<mapsto> Rejected e)\<rparr>))"

subsection \<open>The WebSocket module\<close>

definition isConnected :: "state \<Rightarrow> bool" where
  "isConnected s =
     (case extensionSocket s of None \<Rightarrow> False | Some k \<Rightarrow> readyState s k = Some 1)"

text \<open>
  \<^verbatim>\<open>sendToExtension(request)\<close> for the caller \<open>c\<close>; \<open>rid\<close> is \<^verbatim>\<open>request.id\<close>.
  \<open>send_throws\<close> is what \<^verbatim>\<open>extensionSocket.send\<close> raises, if it raises.
\<close>

definition sendToExtension :: "json \<Rightarrow> string \<Rightarrow> caller \<Rightarrow> js_error option \<Rightarrow> state \<Rightarrow> state" where
  "sendToExtension request rid c send_throws s =
     (case extensionSocket s of
        None \<Rightarrow> reject c (Error ''Extension not connected'') s
      | Some k \<Rightarrow>
          if readyState s k \<noteq> Some 1 then reject c (Error ''Extension not connected'') s
          else
            let t = nextTimer s;
                s1 = s\<lparr>timers := (timers s)(t \<mapsto> \<lparr>rejects = c, delay_ms = 10000\<rparr>),
                       nextTimer := Suc t\<rparr>;
                s2 = s1\<lparr>pendingRequest := Some \<lparr>req_id = rid, resolve_reject = c, timeout = t\<rparr>\<rparr>
            in (case send_throws of
                  None \<Rightarrow> s2\<lparr>sent := sent s2 @ [(k, request)]\<rparr>
                | Some e \<Rightarrow>
                    reject c e ((clearTimeout t s2)\<lparr>pendingRequest := None\<rparr>)))"

text \<open>The timer's callback.\<close>

definition on_timeout :: "caller \<Rightarrow> state \<Rightarrow> state" where
  "on_timeout c s = reject c (Error ''Request timeout'') (s\<lparr>pendingRequest := None\<rparr>)"

text \<open>
  The body of the \<^verbatim>\<open>try\<close> block of \<^verbatim>\<open>handleExtensionResponse\<close>: \<open>Inr\<close> is the state
  at its end, \<open>Inl\<close> an exception together with the state in which it was raised.
  \<^verbatim>\<open>&&\<close> does not evaluate \<^verbatim>\<open>response.id\<close> when there is no pending request;
  \<^verbatim>\<open>===\<close> against the pending id, a string, holds only for an equal string.
  \<^verbatim>\<open>new Error(response.data || 'Unknown error')\<close> converts its argument to a string, after
  \<^verbatim>\<open>clearTimeout\<close> and before \<^verbatim>\<open>reject\<close> is called and the slot is cleared.
\<close>

definition handleExtensionResponse_try :: "raw \<Rightarrow> state \<Rightarrow> (js_error \<times> state) + state" where
  "handleExtensionResponse_try data s =
     (case JSON_parse data of
        Inl e \<Rightarrow> Inl (e, s)
      | Inr response \<Rightarrow>
          (case pendingRequest s of
             None \<Rightarrow> Inr s
           | Some p \<Rightarrow>
               (case get_prop response ''id'' of
                  Inl e \<Rightarrow> Inl (e, s)
                | Inr i \<Rightarrow>
                    if i \<noteq> Some (JString (req_id p)) then Inr s
                    else
                      let s1 = clearTimeout (timeout p) s in
                      (case get_prop response ''success'' of
                         Inl e \<Rightarrow> Inl (e, s1)
                       | Inr ok \<Rightarrow>
                           if truthy ok
                           then Inr ((resolve (resolve_reject p) response s1)\<lparr>pendingRequest := None\<rparr>)
                           else
                             (case get_prop response ''data'' of
                                Inl e \<Rightarrow> Inl (e, s1)
                              | Inr d \<Rightarrow>
                                  (case ToString (or_else d (JString ''Unknown error'')) of
                                     Inl e \<Rightarrow> Inl (e, s1)
                                   | Inr m \<Rightarrow>
                                       Inr ((reject (resolve_reject p) (Error m) s1)
                                             \<lparr>pendingRequest := None\<rparr>)))))))"

text \<open>The \<^verbatim>\<open>catch\<close> logs the exception; what the \<^verbatim>\<open>try\<close> block did before it stays done.\<close>

definition handleExtensionResponse :: "raw \<Rightarrow> state \<Rightarrow> state" where
  "handleExtensionResponse data s =
     (case handleExtensionResponse_try data s of
        Inr s' \<Rightarrow> s'
      | Inl (e, s') \<Rightarrow> log_line (''[WebSocket] Error parsing response: '' @ message e) s')"

text \<open>The handlers that \<^verbatim>\<open>createWebSocketServer\<close> installs.\<close>

definition on_connection :: "sock \<Rightarrow> state \<Rightarrow> state" where
  "on_connection k s = (log_line ''[WebSocket] Extension connected'' s)\<lparr>extensionSocket := Some k\<rparr>"

definition on_close :: "state \<Rightarrow> state" where
  "on_close s =
     (let s1 = (log_line ''[WebSocket] Extension disconnected'' s)\<lparr>extensionSocket := None\<rparr>
      in case pendingRequest s1 of
           None \<Rightarrow> s1
         | Some p \<Rightarrow>
             (reject (resolve_reject p) (Error ''Extension disconnected'') s1)
               \<lparr>pendingRequest := None\<rparr>)"

definition on_error :: "string \<Rightarrow> state \<Rightarrow> state" where
  "on_error m s = log_line (''[WebSocket] Error: '' @ m) s"

subsection \<open>The HTTP server\<close>

record http_request =
  req_method :: string
  req_url :: string
  req_body :: raw

definition generateRequestId :: "nat \<Rightarrow> state \<Rightarrow> string \<times> state" where
  "generateRequestId now s =
     (let n = Suc (requestIdCounter s)
      in (''req-'' @ show_nat now @ ''-'' @ show_nat n, s\<lparr>requestIdCounter := n\<rparr>))"

text \<open>
  The text of the log line \<^verbatim>\<open>`[HTTP] Command: ${request.command}${request.url ? ` (${request.url})` : ''}`\<close>.
  The template literal raises when a conversion to a string raises.
\<close>

definition command_log :: "json \<Rightarrow> js_error + string" where
  "command_log request =
     (case template (field request ''command'') of
        Inl e \<Rightarrow> Inl e
      | Inr c \<Rightarrow>
          if truthy (field request ''url'')
          then (case template (field request ''url'') of
                  Inl e \<Rightarrow> Inl e
                | Inr u \<Rightarrow> Inr (''[HTTP] Command: '' @ c @ '' ('' @ u @ '')''))
          else Inr (''[HTTP] Command: '' @ c))"

text \<open>
  The \<^verbatim>\<open>try\<close> block of the \<^verbatim>\<open>POST /api/command\<close> branch for the caller \<open>c\<close>, up to
  the \<^verbatim>\<open>await\<close>; \<open>now\<close> is what \<^verbatim>\<open>Date.now()\<close> returns. \<open>Inr\<close> is the state at the
  \<^verbatim>\<open>await\<close> (or at the \<^verbatim>\<open>return\<close> of the 400 branch), \<open>Inl\<close> an exception together with
  the state in which it was raised. A value with a truthy \<^verbatim>\<open>command\<close> is an object, so the
  assignment of \<^verbatim>\<open>request.id\<close> takes effect and reading the properties for the log line does
  not raise; the log line is built after the id counter has been incremented and before
  \<^verbatim>\<open>sendToExtension\<close> is called.
\<close>

definition command_try :: "http_request \<Rightarrow> nat \<Rightarrow> js_error option \<Rightarrow> caller \<Rightarrow> state \<Rightarrow> (js_error \<times> state) + state" where
  "command_try req now send_throws c s =
     (case JSON_parse (req_body req) of
        Inl e \<Rightarrow> Inl (e, s)
      | Inr request \<Rightarrow>
          (case get_prop request ''command'' of
             Inl e \<Rightarrow> Inl (e, s)
           | Inr cmd \<Rightarrow>
               if \<not> truthy cmd
               then Inr (write_reply c 400 (Some (JObject [(''error'', JString ''Missing command field'')])) s)
               else
                 let (rid, s1) = generateRequestId now s;
                     request' = set_prop request ''id'' (JString rid)
                 in (case command_log request' of
                       Inl e \<Rightarrow> Inl (e, s1)
                     | Inr l \<Rightarrow> Inr (sendToExtension request' rid c send_throws (log_line l s1)))))"

text \<open>
  \<^verbatim>\<open>handleRequest(req, res)\<close>. The response object \<^verbatim>\<open>res\<close> of this request is the
  caller \<open>nextCaller s\<close>. The CORS headers, the same on every response, are left out.
\<close>

definition handleRequest :: "http_request \<Rightarrow> nat \<Rightarrow> js_error option \<Rightarrow> state \<Rightarrow> state" where
  "handleRequest req now send_throws s0 =
     (let c = nextCaller s0; s = s0\<lparr>nextCaller := Suc c\<rparr> in
      if req_method req = ''OPTIONS'' then write_reply c 200 None s
      else if req_url req = ''/api/status'' \<and> req_method req = ''GET''
      then write_reply c 200 (Some (JObject [(''connected'', JBool (isConnected s))])) s
      else if req_url req = ''/api/command'' \<and> req_method req = ''POST''
      then (case command_try req now send_throws c s of
              Inr s' \<Rightarrow> s'
            | Inl (e, s') \<Rightarrow> reply_error c e s')
      else write_reply c 404 (Some (JObject [(''error'', JString ''Not found'')])) s)"

subsection \<open>The event loop\<close>

text \<open>
  One event per callback. The environment decides which events happen; the step function
  ignores those that cannot: a connection event for a socket that already exists, an event
  of a socket that has no handlers (it never connected, or it has emitted \<^verbatim>\<open>close\<close>),
  a timer that is not armed. \<open>Closing\<close> is the \<^verbatim>\<open>ws\<close> library starting the closing
  handshake: the socket leaves the OPEN state and no callback of the relay runs.
\<close>

datatype event =
    Connection sock
  | Closing sock
  | Close sock
  | SocketError sock string
  | Message sock raw
  | Timeout timer
  | Http http_request nat "js_error option"

definition alive :: "state \<Rightarrow> sock \<Rightarrow> bool" where
  "alive s k = (readyState s k = Some 1 \<or> readyState s k = Some 2)"

fun step :: "event \<Rightarrow> state \<Rightarrow> state" where
  "step (Connection k) s =
     (if readyState s k = None
      then on_connection k (s\<lparr>readyState := (readyState s)(k \<mapsto> 1)\<rparr>) else s)"
| "step (Closing k) s =
     (if readyState s k = Some 1 then s\<lparr>readyState := (readyState s)(k \<mapsto> 2)\<rparr> else s)"
| "step (Close k) s =
     (if alive s k then on_close (s\<lparr>readyState := (readyState s)(k \<mapsto> 3)\<rparr>) else s)"
| "step (SocketError k m) s = (if alive s k then on_error m s else s)"
| "step (Message k data) s = (if alive s k then handleExtensionResponse data s else s)"
| "step (Timeout t) s =
     (case timers s t of
        None \<Rightarrow> s
      | Some a \<Rightarrow> on_timeout (rejects a) (s\<lparr>timers := (timers s)(t := None)\<rparr>))"
| "step (Http req now send_throws) s = handleRequest req now send_throws s"

fun run :: "event list \<Rightarrow> state \<Rightarrow> state" where
  "run [] s = s"
| "run (e # es) s = run es (step e s)"

section \<open>The extension's URL matcher\<close>

text \<open>
  \<^verbatim>\<open>urlMatches(url, pattern)\<close> of \<^verbatim>\<open>service-worker.js\<close>. A JavaScript string is a
  sequence of 16-bit code units; the regular expression has no flags, so it works on code
  units and its \<^verbatim>\<open>.\<close> matches every code unit but the four line terminators.
\<close>

type_synonym js_string = "16 word list"

definition star :: "16 word" where "star = 0x2A"
definition dot :: "16 word" where "dot = 0x2E"
definition backslash :: "16 word" where "backslash = 0x5C"

text \<open>The character class \<^verbatim>\<open>[.+?^${}()|[\]\\]\<close> of the first \<^verbatim>\<open>replace\<close>.\<close>

definition special :: "16 word list" where
  "special = [0x2E, 0x2B, 0x3F, 0x5E, 0x24, 0x7B, 0x7D, 0x28, 0x29, 0x7C, 0x5B, 0x5D, 0x5C]"

definition LineTerminator :: "16 word \<Rightarrow> bool" where
  "LineTerminator c \<longleftrightarrow> c = 0x0A \<or> c = 0x0D \<or> c = 0x2028 \<or> c = 0x2029"

text \<open>\<^verbatim>\<open>.replace(/[.+?^${}()|[\]\\]/g, '\\$&')\<close> and \<^verbatim>\<open>.replace(/\*/g, '.*')\<close>.\<close>

fun escape_special :: "js_string \<Rightarrow> js_string" where
  "escape_special [] = []"
| "escape_special (c # cs) = (if c \<in> set special then [backslash, c] else [c]) @ escape_special cs"

fun star_to_dotstar :: "js_string \<Rightarrow> js_string" where
  "star_to_dotstar [] = []"
| "star_to_dotstar (c # cs) = (if c = star then [dot, star] else [c]) @ star_to_dotstar cs"

text \<open>
  \<^verbatim>\<open>new RegExp(source)\<close> for the sources that consist of escaped syntax characters
  \<^verbatim>\<open>\c\<close>, of \<^verbatim>\<open>.*\<close> and of characters that are not syntax characters; \<open>None\<close> for
  any other source (the two replacements produce none, see \<open>RegExp_escaped\<close>).
\<close>

datatype atom = Char "16 word" | AnyStar

fun RegExp :: "js_string \<Rightarrow> atom list option" where
  "RegExp [] = Some []"
| "RegExp (c # cs) =
     (if c = backslash then
        (case cs of
           [] \<Rightarrow> None
         | d # ds \<Rightarrow> if d \<in> set special then map_option ((#) (Char d)) (RegExp ds) else None)
      else if c = dot then
        (case cs of
           [] \<Rightarrow> None
         | d # ds \<Rightarrow> if d = star then map_option ((#) AnyStar) (RegExp ds) else None)
      else if c \<in> set special \<or> c = star then None
      else map_option ((#) (Char c)) (RegExp cs))"

text \<open>
  Backtracking match of the whole expression at the start of \<open>u\<close>; \<^verbatim>\<open>.*\<close> is greedy,
  so the longer match is tried first.
\<close>

fun match_here :: "atom list \<Rightarrow> js_string \<Rightarrow> bool" where
  "match_here [] u = True"
| "match_here (Char c # re) [] = False"
| "match_here (Char c # re) (x # xs) = (x = c \<and> match_here re xs)"
| "match_here (AnyStar # re) [] = match_here re []"
| "match_here (AnyStar # re) (x # xs) =
     ((\<not> LineTerminator x \<and> match_here (AnyStar # re) xs) \<or> match_here re (x # xs))"

text \<open>\<^verbatim>\<open>regex.test(url)\<close>: the first position of \<open>url\<close> where the expression matches.\<close>

fun RegExp_test :: "atom list \<Rightarrow> js_string \<Rightarrow> bool" where
  "RegExp_test re [] = match_here re []"
| "RegExp_test re (x # xs) = (match_here re (x # xs) \<or> RegExp_test re xs)"

text \<open>\<^verbatim>\<open>url.includes(pattern)\<close>.\<close>

fun String_includes :: "js_string \<Rightarrow> js_string \<Rightarrow> bool" where
  "String_includes [] p = (p = [])"
| "String_includes (x # xs) p = (prefix p (x # xs) \<or> String_includes xs p)"

text \<open>
  The pattern is \<open>None\<close> when the request has no \<^verbatim>\<open>url\<close>; \<^verbatim>\<open>!pattern\<close> also holds
  for the empty string.
\<close>

definition urlMatches :: "js_string \<Rightarrow> js_string option \<Rightarrow> bool option" where
  "urlMatches url pattern =
     (case pattern of
        None \<Rightarrow> Some True
      | Some p \<Rightarrow>
          if p = [] then Some True
          else if star \<in> set p
          then map_option (\<lambda>regex. RegExp_test regex url) (RegExp (star_to_dotstar (escape_special p)))
          else Some (String_includes url p))"


subsection \<open>The matching that the specification describes\<close>

text \<open>
  The literal segments of a pattern are the pieces between its \<^verbatim>\<open>*\<close>. The url contains
  them in order when it is some prefix, then the segments with one gap after each but the
  last, then some suffix; \<open>G\<close> says which substrings a \<^verbatim>\<open>*\<close> may stand for. A pattern
  without \<^verbatim>\<open>*\<close> matches the urls that contain it; no pattern matches every url.
\<close>

fun segments :: "js_string \<Rightarrow> js_string list" where
  "segments [] = [[]]"
| "segments (c # cs) =
     (if c = star then [] # segments cs
      else (case segments cs of [] \<Rightarrow> [[c]] | s # ss \<Rightarrow> (c # s) # ss))"

fun interleave :: "js_string list \<Rightarrow> js_string list \<Rightarrow> js_string" where
  "interleave [] gs = []"
| "interleave (s # ss) [] = s"
| "interleave (s # ss) (g # gs) = s @ g @ interleave ss gs"

definition wildcard_spec :: "(js_string \<Rightarrow> bool) \<Rightarrow> js_string \<Rightarrow> js_string option \<Rightarrow> bool" where
  "wildcard_spec G url pattern =
     (case pattern of
        None \<Rightarrow> True
      | Some p \<Rightarrow>
          if star \<in> set p
          then (\<exists>pre gaps post. length gaps + 1 = length (segments p) \<and> (\<forall>g \<in> set gaps. G g) \<and>
                  url = pre @ interleave (segments p) gaps @ post)
          else sublist p url)"

definition any_substring :: "js_string \<Rightarrow> bool" where
  "any_substring g = True"

definition one_line :: "js_string \<Rightarrow> bool" where
  "one_line g = (\<forall>c \<in> set g. \<not> LineTerminator c)"

section \<open>Invariants of the relay\<close>

text \<open>
  In every reachable state the promise of the entry in the slot, if there is one, is not
  settled, and the entry's timer is either still armed, with the entry's own
  \<^verbatim>\<open>reject\<close>, or has been cancelled; timer handles and callers come from the counters.
\<close>

definition relay_inv :: "state \<Rightarrow> bool" where
  "relay_inv s \<longleftrightarrow>
     (\<forall>p. pendingRequest s = Some p \<longrightarrow>
        (timers s (timeout p) = None \<or>
         timers s (timeout p) = Some \<lparr>rejects = resolve_reject p, delay_ms = 10000\<rparr>) \<and>
        timeout p < nextTimer s \<and>
        promises s (resolve_reject p) = None \<and> resolve_reject p < nextCaller s) \<and>
     (\<forall>t a. timers s t = Some a \<longrightarrow> t < nextTimer s \<and> rejects a < nextCaller s) \<and>
     (\<forall>c out. promises s c = Some out \<longrightarrow> c < nextCaller s)"

text \<open>
  A caller whose entry has been pushed out of the slot: no entry carries its callbacks any
  more, and its promise is either not settled or rejected by the timer.
\<close>

definition answered_only_by_timeout :: "caller \<Rightarrow> state \<Rightarrow> bool" where
  "answered_only_by_timeout c s \<longleftrightarrow>
     c < nextCaller s \<and>
     (\<forall>p. pendingRequest s = Some p \<longrightarrow> resolve_reject p \<noteq> c) \<and>
     (promises s c = None \<or> promises s c = Some (Rejected (Error ''Request timeout'')))"

text \<open>The request of the scenarios: \<^verbatim>\<open>POST /api/command {"command":"ping"}\<close>.\<close>

definition ping_request :: http_request where
  "ping_request = \<lparr>req_method = ''POST'', req_url = ''/api/command'',
                    req_body = Parses (JObject [(''command'', JString ''ping'')])\<rparr>"

text \<open>The regular expression that the two replacements make of a pattern.\<close>

definition atoms :: "js_string \<Rightarrow> atom list" where
  "atoms p = map (\<lambda>c. if c = star then AnyStar else Char c) p"

section \<open>Properties\<close>

subsection \<open>Reachable states satisfy the invariant\<close>

lemmas prim_defs = log_line_def clearTimeout_def write_reply_def reply_error_def resolve_def reject_def

lemma inv_init: "relay_inv init_state"
  by (simp add: relay_inv_def init_state_def)

lemma inv_on_connection: "relay_inv s \<Longrightarrow> relay_inv (on_connection k s)"
  by (simp add: relay_inv_def on_connection_def prim_defs)

lemma inv_on_close: "relay_inv s \<Longrightarrow> relay_inv (on_close s)"
  by (auto simp add: relay_inv_def on_close_def Let_def prim_defs split: option.splits)

lemma inv_on_error: "relay_inv s \<Longrightarrow> relay_inv (on_error m s)"
  by (simp add: relay_inv_def on_error_def prim_defs)

lemma inv_on_timeout: "relay_inv s \<Longrightarrow> timers s t = Some a \<Longrightarrow> relay_inv (on_timeout (rejects a) (s\<lparr>timers := (timers s)(t := None)\<rparr>))"
  by (auto simp add: relay_inv_def on_timeout_def prim_defs split: if_splits)

lemma inv_readyState: "relay_inv s \<Longrightarrow> relay_inv (s\<lparr>readyState := r\<rparr>)"
  by (simp add: relay_inv_def)

lemma inv_response: "relay_inv s \<Longrightarrow> relay_inv (handleExtensionResponse data s)"
  by (auto simp add: relay_inv_def handleExtensionResponse_def handleExtensionResponse_try_def Let_def prim_defs split: option.splits sum.splits if_splits)

lemma inv_sendToExtension:
  "relay_inv (s\<lparr>nextCaller := c\<rparr>) \<Longrightarrow> nextCaller s = Suc c \<Longrightarrow> relay_inv (sendToExtension request rid c st s)"
  by (auto simp add: relay_inv_def sendToExtension_def Let_def prim_defs less_Suc_eq split: option.splits if_splits)

lemma inv_frame:
  assumes "relay_inv s" "pendingRequest s' = pendingRequest s" "timers s' = timers s"
    "promises s' = promises s" "nextTimer s' = nextTimer s" "nextCaller s \<le> nextCaller s'"
  shows "relay_inv s'"
  unfolding relay_inv_def
proof (intro conjI allI impI)
  fix p assume "pendingRequest s' = Some p"
  then have p: "pendingRequest s = Some p" using assms(2) by simp
  from assms(1) p have "timers s (timeout p) = None \<or>
       timers s (timeout p) = Some \<lparr>rejects = resolve_reject p, delay_ms = 10000\<rparr>"
    and "timeout p < nextTimer s"
    and "promises s (resolve_reject p) = None" and "resolve_reject p < nextCaller s"
    unfolding relay_inv_def by blast+
  then show "timers s' (timeout p) = None \<or>
       timers s' (timeout p) = Some \<lparr>rejects = resolve_reject p, delay_ms = 10000\<rparr>"
    and "timeout p < nextTimer s'"
    and "promises s' (resolve_reject p) = None" and "resolve_reject p < nextCaller s'"
    using assms(3,4,5,6) by simp_all
next
  fix t a assume "timers s' t = Some a"
  then have "timers s t = Some a" using assms(3) by simp
  with assms(1) have "t < nextTimer s" "rejects a < nextCaller s"
    unfolding relay_inv_def by blast+
  then show "t < nextTimer s'" "rejects a < nextCaller s'" using assms(5,6) by simp_all
next
  fix c out assume "promises s' c = Some out"
  then have "promises s c = Some out" using assms(4) by simp
  with assms(1) have "c < nextCaller s" unfolding relay_inv_def by blast
  then show "c < nextCaller s'" using assms(6) by simp
qed

lemma inv_write_reply: "relay_inv s \<Longrightarrow> relay_inv (write_reply c code b s)"
  by (erule inv_frame) (simp_all add: write_reply_def)

lemma inv_reply_error: "relay_inv s \<Longrightarrow> relay_inv (reply_error c e s)"
  by (erule inv_frame) (simp_all add: reply_error_def write_reply_def log_line_def)

lemma generateRequestId_simps:
  "snd (generateRequestId now s) = s\<lparr>requestIdCounter := Suc (requestIdCounter s)\<rparr>"
  "fst (generateRequestId now (s\<lparr>nextCaller := n\<rparr>)) = fst (generateRequestId now s)"
  by (simp_all add: generateRequestId_def Let_def)

lemma command_try_missing:
  assumes "JSON_parse (req_body req) = Inr request" "get_prop request ''command'' = Inr cmd" "\<not> truthy cmd"
  shows "command_try req now st c s =
     Inr (write_reply c 400 (Some (JObject [(''error'', JString ''Missing command field'')])) s)"
  using assms by (simp add: command_try_def)

lemma command_try_send:
  assumes "JSON_parse (req_body req) = Inr request" "get_prop request ''command'' = Inr cmd" "truthy cmd"
    "command_log (set_prop request ''id'' (JString (fst (generateRequestId now s)))) = Inr l"
  shows "command_try req now st c s =
     Inr (sendToExtension (set_prop request ''id'' (JString (fst (generateRequestId now s))))
            (fst (generateRequestId now s)) c st
            (log_line l (s\<lparr>requestIdCounter := Suc (requestIdCounter s)\<rparr>)))"
  using assms by (simp add: command_try_def Let_def split_beta generateRequestId_simps)

lemma command_try_log_raises:
  assumes "JSON_parse (req_body req) = Inr request" "get_prop request ''command'' = Inr cmd" "truthy cmd"
    "command_log (set_prop request ''id'' (JString (fst (generateRequestId now s)))) = Inl e"
  shows "command_try req now st c s = Inl (e, s\<lparr>requestIdCounter := Suc (requestIdCounter s)\<rparr>)"
  using assms by (simp add: command_try_def Let_def split_beta generateRequestId_simps)

lemma command_try_cases:
  obtains (raised) e where "command_try req now st c s = Inl (e, s)"
  | (missing) "command_try req now st c s =
       Inr (write_reply c 400 (Some (JObject [(''error'', JString ''Missing command field'')])) s)"
  | (log_raised) e where
      "command_try req now st c s = Inl (e, s\<lparr>requestIdCounter := Suc (requestIdCounter s)\<rparr>)"
  | (sent) request' l where
      "command_try req now st c s =
         Inr (sendToExtension request' (fst (generateRequestId now s)) c st
                (log_line l (s\<lparr>requestIdCounter := Suc (requestIdCounter s)\<rparr>)))"
proof (cases "JSON_parse (req_body req)")
  case (Inl e)
  then have "command_try req now st c s = Inl (e, s)" by (simp add: command_try_def)
  then show ?thesis by (rule raised)
next
  case p: (Inr request)
  show ?thesis
  proof (cases "get_prop request ''command''")
    case (Inl e)
    with p have "command_try req now st c s = Inl (e, s)" by (simp add: command_try_def)
    then show ?thesis by (rule raised)
  next
    case g: (Inr cmd)
    show ?thesis
    proof (cases "truthy cmd")
      case False
      from command_try_missing [OF p g False] show ?thesis by (rule missing)
    next
      case True
      show ?thesis
      proof (cases "command_log (set_prop request ''id'' (JString (fst (generateRequestId now s))))")
        case (Inl e)
        from command_try_log_raises [OF p g True Inl] show ?thesis by (rule log_raised)
      next
        case (Inr l)
        from command_try_send [OF p g True Inr] show ?thesis by (rule sent)
      qed
    qed
  qed
qed

lemma handleRequest_post:
  assumes "req_method req = ''POST''" "req_url req = ''/api/command''"
  shows "handleRequest req now st s =
     (case command_try req now st (nextCaller s) (s\<lparr>nextCaller := Suc (nextCaller s)\<rparr>) of
        Inr s' \<Rightarrow> s'
      | Inl (e, s') \<Rightarrow> reply_error (nextCaller s) e s')"
  using assms by (simp add: handleRequest_def Let_def)

lemma handleRequest_cases:
  obtains (reply) code b where
      "handleRequest req now st s = write_reply (nextCaller s) code b (s\<lparr>nextCaller := Suc (nextCaller s)\<rparr>)"
  | (error) e where
      "handleRequest req now st s = reply_error (nextCaller s) e (s\<lparr>nextCaller := Suc (nextCaller s)\<rparr>)"
  | (log_error) e where
      "handleRequest req now st s =
         reply_error (nextCaller s) e
           (s\<lparr>nextCaller := Suc (nextCaller s), requestIdCounter := Suc (requestIdCounter s)\<rparr>)"
  | (send) request' l where
      "handleRequest req now st s =
         sendToExtension request' (fst (generateRequestId now s)) (nextCaller s) st
           (log_line l (s\<lparr>nextCaller := Suc (nextCaller s), requestIdCounter := Suc (requestIdCounter s)\<rparr>))"
proof (cases "req_url req = ''/api/command'' \<and> req_method req = ''POST''")
  case False
  then have "\<exists>code b. handleRequest req now st s =
      write_reply (nextCaller s) code b (s\<lparr>nextCaller := Suc (nextCaller s)\<rparr>)"
    by (auto simp add: handleRequest_def Let_def)
  then show ?thesis using reply by blast
next
  case True
  then have h: "handleRequest req now st s =
     (case command_try req now st (nextCaller s) (s\<lparr>nextCaller := Suc (nextCaller s)\<rparr>) of
        Inr s' \<Rightarrow> s'
      | Inl (e, s') \<Rightarrow> reply_error (nextCaller s) e s')"
    by (simp add: handleRequest_post)
  show ?thesis
  proof (cases rule: command_try_cases [of req now st "nextCaller s" "s\<lparr>nextCaller := Suc (nextCaller s)\<rparr>"])
    case (raised e)
    with h show ?thesis by (intro error [of e]) simp
  next
    case missing
    with h show ?thesis by (intro reply) simp
  next
    case (log_raised e)
    with h show ?thesis by (intro log_error [of e]) simp
  next
    case (sent request' l)
    with h show ?thesis by (intro send [of request' l]) (simp add: generateRequestId_simps)
  qed
qed

lemma inv_handleRequest:
  assumes "relay_inv s"
  shows "relay_inv (handleRequest req now st s)"
proof (cases rule: handleRequest_cases [of req now st s])
  case (reply code b)
  have "relay_inv (s\<lparr>nextCaller := Suc (nextCaller s)\<rparr>)" using assms by (rule inv_frame) simp_all
  then show ?thesis unfolding reply by (rule inv_write_reply)
next
  case (error e)
  have "relay_inv (s\<lparr>nextCaller := Suc (nextCaller s)\<rparr>)" using assms by (rule inv_frame) simp_all
  then show ?thesis unfolding error by (rule inv_reply_error)
next
  case (log_error e)
  have "relay_inv (s\<lparr>nextCaller := Suc (nextCaller s), requestIdCounter := Suc (requestIdCounter s)\<rparr>)"
    using assms by (rule inv_frame) simp_all
  then show ?thesis unfolding log_error by (rule inv_reply_error)
next
  case (send request' l)
  let ?s2 = "log_line l (s\<lparr>nextCaller := Suc (nextCaller s), requestIdCounter := Suc (requestIdCounter s)\<rparr>)"
  have "relay_inv (?s2\<lparr>nextCaller := nextCaller s\<rparr>)"
    using assms by (rule inv_frame) (simp_all add: log_line_def)
  then show ?thesis unfolding send by (rule inv_sendToExtension) (simp add: log_line_def)
qed

lemma inv_step: "relay_inv s \<Longrightarrow> relay_inv (step e s)"
proof (cases e)
  case (Connection k)
  then show "relay_inv s \<Longrightarrow> ?thesis" by (simp add: inv_on_connection inv_readyState)
next
  case (Closing k)
  then show "relay_inv s \<Longrightarrow> ?thesis" by (simp add: inv_readyState)
next
  case (Close k)
  then show "relay_inv s \<Longrightarrow> ?thesis" by (simp add: inv_on_close inv_readyState)
next
  case (SocketError k m)
  then show "relay_inv s \<Longrightarrow> ?thesis" by (simp add: inv_on_error)
next
  case (Message k data)
  then show "relay_inv s \<Longrightarrow> ?thesis" by (simp add: inv_response)
next
  case (Timeout t)
  then show "relay_inv s \<Longrightarrow> ?thesis" by (cases "timers s t") (simp_all add: inv_on_timeout)
next
  case (Http req now st)
  then show "relay_inv s \<Longrightarrow> ?thesis" by (simp add: inv_handleRequest)
qed

lemma inv_run: "relay_inv s \<Longrightarrow> relay_inv (run es s)"
proof (induction es arbitrary: s)
  case Nil
  then show ?case by simp
next
  case (Cons e es)
  from Cons.prems have "relay_inv (step e s)" by (rule inv_step)
  then have "relay_inv (run es (step e s))" by (rule Cons.IH)
  then show ?case by simp
qed

lemma inv_reachable: "relay_inv (run es init_state)"
  using inv_init by (rule inv_run)

subsection \<open>Steps of the relay\<close>

lemma fresh_caller: "relay_inv s \<Longrightarrow> promises s (nextCaller s) = None"
  unfolding relay_inv_def by (cases "promises s (nextCaller s)") auto

lemma reject_unsettled:
  assumes "promises s c = None"
  shows "reject c e s =
     s\<lparr>promises := (promises s)(c \<mapsto> Rejected e),
       console := console s @ [''[HTTP] Error: '' @ message e],
       replies := (replies s)(c \<mapsto> \<lparr>status = 500,
          payload = Some (JObject [(''success'', JBool False), (''error'', JString (message e))])\<rparr>)\<rparr>"
  using assms by (simp add: prim_defs)

lemma resolve_unsettled:
  assumes "promises s c = None"
  shows "resolve c v s =
     s\<lparr>promises := (promises s)(c \<mapsto> Resolved v),
       replies := (replies s)(c \<mapsto> \<lparr>status = 200, payload = Some v\<rparr>)\<rparr>"
  using assms by (simp add: prim_defs)

lemma sendToExtension_not_connected:
  assumes "\<not> isConnected s"
  shows "sendToExtension request rid c st s = reject c (Error ''Extension not connected'') s"
  using assms by (simp add: sendToExtension_def isConnected_def split: option.splits)

lemma map_of_set_field:
  "map_of (set_field kvs k v) k' = (if k' = k then Some v else map_of kvs k')"
  by (induction kvs) auto

lemma field_set_prop: "k' \<noteq> k \<Longrightarrow> field (set_prop request k v) k' = field request k'"
  by (cases request) (simp_all add: map_of_set_field)

lemma command_log_set_id: "command_log (set_prop request ''id'' v) = command_log request"
proof -
  have "field (set_prop request ''id'' v) ''command'' = field request ''command''"
    and "field (set_prop request ''id'' v) ''url'' = field request ''url''"
    by (simp_all add: field_set_prop)
  then show ?thesis unfolding command_log_def by (simp only:)
qed

lemma handleRequest_command:
  assumes "req_method req = ''POST''" "req_url req = ''/api/command''"
    "req_body req = Parses request" "get_prop request ''command'' = Inr cmd" "truthy cmd"
    "command_log request = Inr l"
  shows "handleRequest req now st s =
     sendToExtension (set_prop request ''id'' (JString (fst (generateRequestId now s))))
       (fst (generateRequestId now s)) (nextCaller s) st
       (log_line l (s\<lparr>nextCaller := Suc (nextCaller s), requestIdCounter := Suc (requestIdCounter s)\<rparr>))"
proof -
  have p: "JSON_parse (req_body req) = Inr request" using assms(3) by simp
  have l: "command_log (set_prop request ''id''
      (JString (fst (generateRequestId now (s\<lparr>nextCaller := Suc (nextCaller s)\<rparr>))))) = Inr l"
    using assms(6) by (simp only: command_log_set_id)
  show ?thesis
    unfolding handleRequest_post [OF assms(1,2)] command_try_send [OF p assms(4,5) l]
    by (simp add: generateRequestId_simps)
qed

lemma handleRequest_log_raises:
  assumes "req_method req = ''POST''" "req_url req = ''/api/command''"
    "req_body req = Parses request" "get_prop request ''command'' = Inr cmd" "truthy cmd"
    "command_log request = Inl e"
  shows "handleRequest req now st s =
     reply_error (nextCaller s) e
       (s\<lparr>nextCaller := Suc (nextCaller s), requestIdCounter := Suc (requestIdCounter s)\<rparr>)"
proof -
  have p: "JSON_parse (req_body req) = Inr request" using assms(3) by simp
  have l: "command_log (set_prop request ''id''
      (JString (fst (generateRequestId now (s\<lparr>nextCaller := Suc (nextCaller s)\<rparr>))))) = Inl e"
    using assms(6) by (simp only: command_log_set_id)
  show ?thesis
    unfolding handleRequest_post [OF assms(1,2)] command_try_log_raises [OF p assms(4,5) l]
    by simp
qed

lemmas relay_defs = init_state_def handleRequest_def command_try_def generateRequestId_def
  digit_def sendToExtension_def on_connection_def on_close_def on_timeout_def on_error_def
  handleExtensionResponse_def handleExtensionResponse_try_def isConnected_def alive_def
  command_log_def prim_defs Let_def

lemma show_nat_digit: "n < 10 \<Longrightarrow> show_nat n = [digit n]"
  by simp

lemma sendToExtension_connected:
  assumes "extensionSocket s = Some k" "readyState s k = Some 1"
  shows "sendToExtension request rid c None s =
     s\<lparr>timers := (timers s)(nextTimer s \<mapsto> \<lparr>rejects = c, delay_ms = 10000\<rparr>),
       nextTimer := Suc (nextTimer s),
       pendingRequest := Some \<lparr>req_id = rid, resolve_reject = c, timeout = nextTimer s\<rparr>,
       sent := sent s @ [(k, request)]\<rparr>"
  using assms by (simp add: sendToExtension_def Let_def)

lemma submit_connected:
  assumes "extensionSocket s = Some k" "readyState s k = Some 1"
    "req_method req = ''POST''" "req_url req = ''/api/command''"
    "req_body req = Parses request" "get_prop request ''command'' = Inr cmd" "truthy cmd"
    "command_log request = Inr l"
  shows "step (Http req now None) s =
     s\<lparr>nextCaller := Suc (nextCaller s), requestIdCounter := Suc (requestIdCounter s),
       console := console s @ [l],
       timers := (timers s)(nextTimer s \<mapsto> \<lparr>rejects = nextCaller s, delay_ms = 10000\<rparr>),
       nextTimer := Suc (nextTimer s),
       pendingRequest := Some \<lparr>req_id = fst (generateRequestId now s), resolve_reject = nextCaller s,
                                 timeout = nextTimer s\<rparr>,
       sent := sent s @ [(k, set_prop request ''id'' (JString (fst (generateRequestId now s))))]\<rparr>"
proof -
  let ?s2 = "log_line l
          (s\<lparr>nextCaller := Suc (nextCaller s), requestIdCounter := Suc (requestIdCounter s)\<rparr>)"
  have e: "extensionSocket ?s2 = Some k" and r: "readyState ?s2 k = Some 1"
    using assms(1,2) by (simp_all add: log_line_def)
  show ?thesis
    unfolding step.simps handleRequest_command [OF assms(3-8)] sendToExtension_connected [OF e r]
    by (simp add: log_line_def)
qed

lemma get_prop_field: "response \<noteq> JNull \<Longrightarrow> get_prop response k = Inr (field response k)"
  by (cases response) simp_all

lemma response_success:
  assumes "pendingRequest s = Some p" "promises s (resolve_reject p) = None"
    "get_prop response ''id'' = Inr (Some (JString (req_id p)))"
    "truthy (field response ''success'')"
  shows "handleExtensionResponse (Parses response) s =
     s\<lparr>timers := (timers s)(timeout p := None),
       promises := (promises s)(resolve_reject p \<mapsto> Resolved response),
       replies := (replies s)(resolve_reject p \<mapsto> \<lparr>status = 200, payload = Some response\<rparr>),
       pendingRequest := None\<rparr>"
proof -
  have nn: "response \<noteq> JNull" using assms(3) by auto
  have u: "promises (clearTimeout (timeout p) s) (resolve_reject p) = None"
    using assms(2) by (simp add: clearTimeout_def)
  show ?thesis
    using assms(1,3,4) u
    by (simp add: handleExtensionResponse_def handleExtensionResponse_try_def get_prop_field [OF nn]
          Let_def resolve_unsettled clearTimeout_def)
qed

lemma response_failure:
  assumes "pendingRequest s = Some p" "promises s (resolve_reject p) = None"
    "get_prop response ''id'' = Inr (Some (JString (req_id p)))"
    "\<not> truthy (field response ''success'')"
    "ToString (or_else (field response ''data'') (JString ''Unknown error'')) = Inr m"
  shows "handleExtensionResponse (Parses response) s =
     s\<lparr>timers := (timers s)(timeout p := None),
       promises := (promises s)(resolve_reject p \<mapsto> Rejected (Error m)),
       console := console s @ [''[HTTP] Error: '' @ m],
       replies := (replies s)(resolve_reject p \<mapsto> \<lparr>status = 500,
          payload = Some (JObject [(''success'', JBool False), (''error'', JString m)])\<rparr>),
       pendingRequest := None\<rparr>"
proof -
  have nn: "response \<noteq> JNull" using assms(3) by auto
  have u: "promises (clearTimeout (timeout p) s) (resolve_reject p) = None"
    using assms(2) by (simp add: clearTimeout_def)
  show ?thesis
    using assms(1,3,4,5) u
    by (simp add: handleExtensionResponse_def handleExtensionResponse_try_def get_prop_field [OF nn]
          Let_def reject_unsettled clearTimeout_def)
qed

text \<open>
  When the conversion of \<^verbatim>\<open>response.data\<close> raises, the timer is already cancelled; the
  caller is not answered and its entry stays in the slot.
\<close>

lemma response_raises:
  assumes "pendingRequest s = Some p"
    "get_prop response ''id'' = Inr (Some (JString (req_id p)))"
    "\<not> truthy (field response ''success'')"
    "ToString (or_else (field response ''data'') (JString ''Unknown error'')) = Inl e"
  shows "handleExtensionResponse (Parses response) s =
     s\<lparr>timers := (timers s)(timeout p := None),
       console := console s @ [''[WebSocket] Error parsing response: '' @ message e]\<rparr>"
proof -
  have nn: "response \<noteq> JNull" using assms(2) by auto
  show ?thesis
    using assms
    by (simp add: handleExtensionResponse_def handleExtensionResponse_try_def get_prop_field [OF nn]
          Let_def clearTimeout_def log_line_def)
qed

lemma send_failure_cancels_timer:
  assumes "extensionSocket s = Some k" "readyState s k = Some 1" "timers s (nextTimer s) = None"
  shows "timers (sendToExtension request rid c (Some e) s) = timers s \<and>
         pendingRequest (sendToExtension request rid c (Some e) s) = None"
proof -
  have "(timers s)(nextTimer s := None) = timers s" using assms(3) by auto
  then show ?thesis
    using assms(1,2) by (simp add: sendToExtension_def Let_def prim_defs)
qed

subsection \<open>A caller whose entry was overwritten\<close>

lemma run_append: "run (xs @ ys) s = run ys (run xs s)"
  by (induction xs arbitrary: s) simp_all

lemma orphan_reject_other:
  "answered_only_by_timeout c s \<Longrightarrow> c' \<noteq> c \<Longrightarrow> answered_only_by_timeout c (reject c' e s)"
  by (simp add: answered_only_by_timeout_def prim_defs)

lemma orphan_resolve_other:
  "answered_only_by_timeout c s \<Longrightarrow> c' \<noteq> c \<Longrightarrow> answered_only_by_timeout c (resolve c' v s)"
  by (simp add: answered_only_by_timeout_def prim_defs)

lemma orphan_reject_timeout:
  "answered_only_by_timeout c s \<Longrightarrow> answered_only_by_timeout c (reject c' (Error ''Request timeout'') s)"
  by (simp add: answered_only_by_timeout_def prim_defs)

lemma orphan_clear_slot:
  "answered_only_by_timeout c s \<Longrightarrow> answered_only_by_timeout c (s\<lparr>pendingRequest := None\<rparr>)"
  by (simp add: answered_only_by_timeout_def)

lemma orphan_frame:
  assumes "answered_only_by_timeout c s" "pendingRequest s' = pendingRequest s"
    "promises s' = promises s" "nextCaller s \<le> nextCaller s'"
  shows "answered_only_by_timeout c s'"
  using assms by (auto simp add: answered_only_by_timeout_def)

lemma orphan_on_close: "answered_only_by_timeout c s \<Longrightarrow> answered_only_by_timeout c (on_close s)"
proof -
  assume a: "answered_only_by_timeout c s"
  let ?s1 = "(log_line ''[WebSocket] Extension disconnected'' s)\<lparr>extensionSocket := None\<rparr>"
  have s1: "answered_only_by_timeout c ?s1"
    using a by (rule orphan_frame) (simp_all add: log_line_def)
  show ?thesis
  proof (cases "pendingRequest s")
    case None
    then show ?thesis using s1 by (simp add: on_close_def Let_def log_line_def)
  next
    case (Some p)
    with a have "resolve_reject p \<noteq> c" by (simp add: answered_only_by_timeout_def)
    then have "answered_only_by_timeout c
        ((reject (resolve_reject p) (Error ''Extension disconnected'') ?s1)\<lparr>pendingRequest := None\<rparr>)"
      using s1 by (intro orphan_clear_slot orphan_reject_other)
    then show ?thesis using Some by (simp add: on_close_def Let_def log_line_def)
  qed
qed

lemma orphan_on_timeout:
  "answered_only_by_timeout c s \<Longrightarrow> answered_only_by_timeout c (on_timeout c' s)"
  unfolding on_timeout_def by (intro orphan_reject_timeout orphan_clear_slot)

lemma orphan_response:
  "answered_only_by_timeout c s \<Longrightarrow> answered_only_by_timeout c (handleExtensionResponse data s)"
  by (auto simp add: answered_only_by_timeout_def handleExtensionResponse_def
        handleExtensionResponse_try_def Let_def prim_defs split: option.splits sum.splits if_splits)

lemma orphan_sendToExtension:
  assumes "answered_only_by_timeout c s" "c' \<noteq> c"
  shows "answered_only_by_timeout c (sendToExtension request rid c' st s)"
  using assms
  by (auto simp add: answered_only_by_timeout_def sendToExtension_def Let_def prim_defs
        split: option.splits if_splits)

lemma orphan_handleRequest:
  assumes "answered_only_by_timeout c s"
  shows "answered_only_by_timeout c (handleRequest req now st s)"
proof -
  let ?n = "nextCaller s"
  have n: "?n \<noteq> c" using assms by (simp add: answered_only_by_timeout_def)
  have s1: "answered_only_by_timeout c (s\<lparr>nextCaller := Suc ?n\<rparr>)"
    using assms by (rule orphan_frame) simp_all
  have s2: "answered_only_by_timeout c
      (s\<lparr>nextCaller := Suc ?n, requestIdCounter := Suc (requestIdCounter s)\<rparr>)"
    using assms by (rule orphan_frame) simp_all
  have w: "answered_only_by_timeout c (write_reply ?n code b s')"
    if "answered_only_by_timeout c s'" for code b s'
    using that by (rule orphan_frame) (simp_all add: write_reply_def)
  have r: "answered_only_by_timeout c (reply_error ?n e s')"
    if "answered_only_by_timeout c s'" for e s'
    using that by (rule orphan_frame) (simp_all add: reply_error_def write_reply_def log_line_def)
  show ?thesis
  proof (cases rule: handleRequest_cases [of req now st s])
    case (reply code b)
    show ?thesis unfolding reply using s1 by (rule w)
  next
    case (error e)
    show ?thesis unfolding error using s1 by (rule r)
  next
    case (log_error e)
    show ?thesis unfolding log_error using s2 by (rule r)
  next
    case (send request' l)
    have "answered_only_by_timeout c
        (log_line l (s\<lparr>nextCaller := Suc ?n, requestIdCounter := Suc (requestIdCounter s)\<rparr>))"
      using assms by (rule orphan_frame) (simp_all add: log_line_def)
    then show ?thesis unfolding send using n by (rule orphan_sendToExtension)
  qed
qed

lemma orphan_step: "answered_only_by_timeout c s \<Longrightarrow> answered_only_by_timeout c (step e s)"
proof (cases e)
  case (Connection k)
  assume "answered_only_by_timeout c s"
  then have "answered_only_by_timeout c (on_connection k (s\<lparr>readyState := (readyState s)(k \<mapsto> 1)\<rparr>))"
    by (rule orphan_frame) (simp_all add: on_connection_def log_line_def)
  with \<open>answered_only_by_timeout c s\<close> Connection show ?thesis by simp
next
  case (Closing k)
  assume a: "answered_only_by_timeout c s"
  then have "answered_only_by_timeout c (s\<lparr>readyState := (readyState s)(k \<mapsto> 2)\<rparr>)"
    by (rule orphan_frame) simp_all
  with a Closing show ?thesis by simp
next
  case (Close k)
  assume a: "answered_only_by_timeout c s"
  then have "answered_only_by_timeout c (s\<lparr>readyState := (readyState s)(k \<mapsto> 3)\<rparr>)"
    by (rule orphan_frame) simp_all
  then have "answered_only_by_timeout c (on_close (s\<lparr>readyState := (readyState s)(k \<mapsto> 3)\<rparr>))"
    by (rule orphan_on_close)
  with a Close show ?thesis by simp
next
  case (SocketError k m)
  assume a: "answered_only_by_timeout c s"
  then have "answered_only_by_timeout c (on_error m s)"
    by (rule orphan_frame) (simp_all add: on_error_def log_line_def)
  with a SocketError show ?thesis by simp
next
  case (Message k data)
  assume a: "answered_only_by_timeout c s"
  with Message show ?thesis by (simp add: orphan_response)
next
  case (Timeout t)
  assume a: "answered_only_by_timeout c s"
  then have "answered_only_by_timeout c (s\<lparr>timers := (timers s)(t := None)\<rparr>)"
    by (rule orphan_frame) simp_all
  then have "answered_only_by_timeout c (on_timeout c' (s\<lparr>timers := (timers s)(t := None)\<rparr>))" for c'
    by (rule orphan_on_timeout)
  with a Timeout show ?thesis by (cases "timers s t") simp_all
next
  case (Http req now st)
  assume a: "answered_only_by_timeout c s"
  with Http show ?thesis by (simp add: orphan_handleRequest)
qed

lemma orphan_run: "answered_only_by_timeout c s \<Longrightarrow> answered_only_by_timeout c (run es s)"
proof (induction es arbitrary: s)
  case Nil
  then show ?case by simp
next
  case (Cons e es)
  from Cons.prems have "answered_only_by_timeout c (step e s)" by (rule orphan_step)
  then have "answered_only_by_timeout c (run es (step e s))" by (rule Cons.IH)
  then show ?case by simp
qed

subsection \<open>What the matcher computes\<close>

lemma star_to_dotstar_append:
  "star_to_dotstar (xs @ ys) = star_to_dotstar xs @ star_to_dotstar ys"
  by (induction xs) simp_all

lemma star_not_special: "star \<notin> set special"
  by (simp add: star_def special_def)

lemma backslash_neq: "backslash \<noteq> star" "backslash \<noteq> dot" "dot \<noteq> star" "backslash \<in> set special" "dot \<in> set special"
  by (simp_all add: star_def backslash_def dot_def special_def)

lemma RegExp_escaped: "RegExp (star_to_dotstar (escape_special p)) = Some (atoms p)"
proof (induction p)
  case Nil
  show ?case by (simp add: atoms_def)
next
  case (Cons c cs)
  consider "c = star" | "c \<noteq> star" "c \<in> set special" | "c \<noteq> star" "c \<notin> set special"
    by blast
  then show ?case
  proof cases
    case 1
    then show ?thesis using Cons star_not_special backslash_neq
      by (simp add: atoms_def)
  next
    case 2
    then show ?thesis using Cons backslash_neq
      by (simp add: atoms_def)
  next
    case 3
    then have "c \<noteq> backslash" "c \<noteq> dot" using backslash_neq by auto
    with 3 show ?thesis using Cons by (simp add: atoms_def)
  qed
qed

lemma match_AnyStar:
  "match_here (AnyStar # re) u \<longleftrightarrow> (\<exists>g rest. u = g @ rest \<and> one_line g \<and> match_here re rest)"
proof (induction u)
  case Nil
  show ?case by (simp add: one_line_def)
next
  case (Cons x xs)
  show ?case
  proof
    assume "match_here (AnyStar # re) (x # xs)"
    then consider "\<not> LineTerminator x" "match_here (AnyStar # re) xs" | "match_here re (x # xs)"
      by auto
    then show "\<exists>g rest. x # xs = g @ rest \<and> one_line g \<and> match_here re rest"
    proof cases
      case 1
      then obtain g rest where "xs = g @ rest" "one_line g" "match_here re rest"
        using Cons.IH by blast
      with 1 have "x # xs = (x # g) @ rest \<and> one_line (x # g) \<and> match_here re rest"
        by (simp add: one_line_def)
      then show ?thesis by blast
    next
      case 2
      then have "x # xs = [] @ (x # xs) \<and> one_line [] \<and> match_here re (x # xs)"
        by (simp add: one_line_def)
      then show ?thesis by blast
    qed
  next
    assume "\<exists>g rest. x # xs = g @ rest \<and> one_line g \<and> match_here re rest"
    then obtain g rest where g: "x # xs = g @ rest" "one_line g" "match_here re rest"
      by blast
    note IH = Cons.IH
    show "match_here (AnyStar # re) (x # xs)"
    proof (cases g)
      case Nil
      with g have "match_here re (x # xs)" by simp
      then show ?thesis by simp
    next
      case (Cons y ys)
      with g have "x = y" "xs = ys @ rest" "\<not> LineTerminator x" "one_line ys"
        by (simp_all add: one_line_def)
      with g(3) have "match_here (AnyStar # re) xs" using IH by blast
      with \<open>\<not> LineTerminator x\<close> show ?thesis by simp
    qed
  qed
qed

lemma segments_nonempty: "segments p \<noteq> []"
  by (induction p) (simp_all split: list.splits)

lemma match_atoms:
  "match_here (atoms p) u \<longleftrightarrow>
     (\<exists>gaps post. length gaps + 1 = length (segments p) \<and> (\<forall>g \<in> set gaps. one_line g) \<and>
        u = interleave (segments p) gaps @ post)"
proof (induction p arbitrary: u)
  case Nil
  have "length ([]::js_string list) + 1 = length (segments []) \<and> (\<forall>g \<in> set ([]::js_string list). one_line g) \<and>
      u = interleave (segments []) [] @ u" by simp
  then show ?case unfolding atoms_def by (simp del: segments.simps)
next
  case (Cons c cs)
  obtain s ss where seg: "segments cs = s # ss"
    using segments_nonempty [of cs] by (cases "segments cs") auto
  show ?case
  proof (cases "c = star")
    case True
    have "match_here (atoms (c # cs)) u \<longleftrightarrow>
        (\<exists>g rest. u = g @ rest \<and> one_line g \<and> match_here (atoms cs) rest)"
      using True by (simp add: atoms_def match_AnyStar)
    also have "\<dots> \<longleftrightarrow> (\<exists>g rest gaps post. u = g @ rest \<and> one_line g \<and>
        length gaps + 1 = length (segments cs) \<and> (\<forall>g \<in> set gaps. one_line g) \<and>
        rest = interleave (segments cs) gaps @ post)"
      by (simp add: Cons.IH)
    also have "\<dots> \<longleftrightarrow> (\<exists>gaps post. length gaps + 1 = length (segments (c # cs)) \<and>
        (\<forall>g \<in> set gaps. one_line g) \<and> u = interleave (segments (c # cs)) gaps @ post)"
    proof
      assume "\<exists>g rest gaps post. u = g @ rest \<and> one_line g \<and>
        length gaps + 1 = length (segments cs) \<and> (\<forall>g \<in> set gaps. one_line g) \<and>
        rest = interleave (segments cs) gaps @ post"
      then obtain g rest gaps post where h: "u = g @ rest" "one_line g"
        "length gaps + 1 = length (segments cs)" "\<forall>g \<in> set gaps. one_line g"
        "rest = interleave (segments cs) gaps @ post" by blast
      then have "length (g # gaps) + 1 = length (segments (c # cs)) \<and>
        (\<forall>g \<in> set (g # gaps). one_line g) \<and> u = interleave (segments (c # cs)) (g # gaps) @ post"
        using True by simp
      then show "\<exists>gaps post. length gaps + 1 = length (segments (c # cs)) \<and>
        (\<forall>g \<in> set gaps. one_line g) \<and> u = interleave (segments (c # cs)) gaps @ post" by blast
    next
      assume "\<exists>gaps post. length gaps + 1 = length (segments (c # cs)) \<and>
        (\<forall>g \<in> set gaps. one_line g) \<and> u = interleave (segments (c # cs)) gaps @ post"
      then obtain gaps post where h: "length gaps + 1 = length (segments (c # cs))"
        "\<forall>g \<in> set gaps. one_line g" "u = interleave (segments (c # cs)) gaps @ post" by blast
      from h(1) True seg obtain g gs where gs: "gaps = g # gs" by (cases gaps) auto
      with h True have "u = g @ (interleave (segments cs) gs @ post) \<and> one_line g \<and>
        length gs + 1 = length (segments cs) \<and> (\<forall>g \<in> set gs. one_line g) \<and>
        interleave (segments cs) gs @ post = interleave (segments cs) gs @ post" by simp
      then show "\<exists>g rest gaps post. u = g @ rest \<and> one_line g \<and>
        length gaps + 1 = length (segments cs) \<and> (\<forall>g \<in> set gaps. one_line g) \<and>
        rest = interleave (segments cs) gaps @ post" by blast
    qed
    finally show ?thesis .
  next
    case False
    have il: "interleave ((c # s) # ss) gaps = c # interleave (s # ss) gaps" for gaps
      by (cases gaps) simp_all
    have "match_here (atoms (c # cs)) u \<longleftrightarrow> (\<exists>rest. u = c # rest \<and> match_here (atoms cs) rest)"
      using False by (cases u) (auto simp: atoms_def)
    also have "\<dots> \<longleftrightarrow> (\<exists>rest gaps post. u = c # rest \<and> length gaps + 1 = length (segments cs) \<and>
        (\<forall>g \<in> set gaps. one_line g) \<and> rest = interleave (segments cs) gaps @ post)"
      by (simp add: Cons.IH)
    also have "\<dots> \<longleftrightarrow> (\<exists>gaps post. length gaps + 1 = length (segments (c # cs)) \<and>
        (\<forall>g \<in> set gaps. one_line g) \<and> u = interleave (segments (c # cs)) gaps @ post)"
      using False seg by (simp add: il) blast
    finally show ?thesis .
  qed
qed

lemma RegExp_test_iff:
  "RegExp_test re u \<longleftrightarrow> (\<exists>pre rest. u = pre @ rest \<and> match_here re rest)"
proof (induction u)
  case Nil
  show ?case by simp
next
  case (Cons x xs)
  show ?case
  proof
    assume "RegExp_test re (x # xs)"
    then consider "match_here re (x # xs)" | "RegExp_test re xs" by auto
    then show "\<exists>pre rest. x # xs = pre @ rest \<and> match_here re rest"
    proof cases
      case 1
      then have "x # xs = [] @ (x # xs) \<and> match_here re (x # xs)" by simp
      then show ?thesis by blast
    next
      case 2
      then obtain pre rest where "xs = pre @ rest" "match_here re rest" using Cons.IH by blast
      then have "x # xs = (x # pre) @ rest \<and> match_here re rest" by simp
      then show ?thesis by blast
    qed
  next
    assume "\<exists>pre rest. x # xs = pre @ rest \<and> match_here re rest"
    then obtain pre rest where h: "x # xs = pre @ rest" "match_here re rest" by blast
    note IH = Cons.IH
    show "RegExp_test re (x # xs)"
    proof (cases pre)
      case Nil
      with h have "match_here re (x # xs)" by simp
      then show ?thesis by simp
    next
      case (Cons y ys)
      with h have "xs = ys @ rest" by simp
      with h(2) have "RegExp_test re xs" using IH by blast
      then show ?thesis by simp
    qed
  qed
qed

lemma String_includes_iff: "String_includes u p \<longleftrightarrow> sublist p u"
  by (induction u) (simp_all add: sublist_Cons_right)

lemma wildcard_split:
  "(\<exists>pre rest. url = pre @ rest \<and>
      (\<exists>gaps post. length gaps + 1 = length (segments p) \<and> (\<forall>g \<in> set gaps. G g) \<and>
         rest = interleave (segments p) gaps @ post)) \<longleftrightarrow>
   (\<exists>pre gaps post. length gaps + 1 = length (segments p) \<and> (\<forall>g \<in> set gaps. G g) \<and>
      url = pre @ interleave (segments p) gaps @ post)"
  by blast

lemma urlMatches_absent: "urlMatches url None = Some True"
  by (simp add: urlMatches_def)

lemma urlMatches_plain:
  assumes "star \<notin> set p"
  shows "urlMatches url (Some p) = Some (sublist p url)"
  using assms by (simp add: urlMatches_def String_includes_iff)

lemma urlMatches_star:
  assumes "star \<in> set p"
  shows "urlMatches url (Some p) =
     Some (\<exists>pre gaps post. length gaps + 1 = length (segments p) \<and>
        (\<forall>g \<in> set gaps. one_line g) \<and> url = pre @ interleave (segments p) gaps @ post)"
proof -
  from assms have "p \<noteq> []" by auto
  have "RegExp_test (atoms p) url \<longleftrightarrow>
      (\<exists>pre rest. url = pre @ rest \<and> match_here (atoms p) rest)"
    by (rule RegExp_test_iff)
  also have "\<dots> \<longleftrightarrow> (\<exists>pre rest. url = pre @ rest \<and>
      (\<exists>gaps post. length gaps + 1 = length (segments p) \<and> (\<forall>g \<in> set gaps. one_line g) \<and>
         rest = interleave (segments p) gaps @ post))"
    by (simp only: match_atoms)
  also have "\<dots> \<longleftrightarrow> (\<exists>pre gaps post. length gaps + 1 = length (segments p) \<and>
      (\<forall>g \<in> set gaps. one_line g) \<and> url = pre @ interleave (segments p) gaps @ post)"
    by (rule wildcard_split)
  finally show ?thesis
    using assms \<open>p \<noteq> []\<close> by (simp add: urlMatches_def RegExp_escaped del: segments.simps)
qed

lemma gap_in_interleave:
  "length gaps < length segs \<Longrightarrow> g \<in> set gaps \<Longrightarrow> set g \<subseteq> set (interleave segs gaps)"
  by (induction segs gaps rule: interleave.induct) auto

lemma one_line_any:
  assumes "\<forall>c \<in> set url. \<not> LineTerminator c"
  shows "wildcard_spec one_line url pattern = wildcard_spec any_substring url pattern"
proof (cases pattern)
  case None
  then show ?thesis by (simp add: wildcard_spec_def)
next
  case (Some p)
  have "one_line g" if "url = pre @ interleave (segments p) gaps @ post"
     "length gaps + 1 = length (segments p)" "g \<in> set gaps" for pre gaps post g
  proof -
    from that(2,3) have "set g \<subseteq> set (interleave (segments p) gaps)"
      by (intro gap_in_interleave) simp_all
    with that(1) have "set g \<subseteq> set url" by auto
    with assms show ?thesis unfolding one_line_def by blast
  qed
  then have "(\<exists>pre gaps post. length gaps + 1 = length (segments p) \<and> (\<forall>g \<in> set gaps. one_line g) \<and>
      url = pre @ interleave (segments p) gaps @ post) \<longleftrightarrow>
    (\<exists>pre gaps post. length gaps + 1 = length (segments p) \<and> (\<forall>g \<in> set gaps. any_substring g) \<and>
      url = pre @ interleave (segments p) gaps @ post)"
    unfolding any_substring_def by blast
  with Some show ?thesis by (simp add: wildcard_spec_def del: segments.simps)
qed

lemma urlMatches_without_line_terminators:
  assumes "\<forall>c \<in> set url. \<not> LineTerminator c"
  shows "urlMatches url pattern = Some (wildcard_spec any_substring url pattern)"
proof -
  have "urlMatches url pattern = Some (wildcard_spec one_line url pattern)"
  proof (cases pattern)
    case None
    then show ?thesis by (simp add: urlMatches_absent wildcard_spec_def)
  next
    case (Some p)
    then show ?thesis
      by (cases "star \<in> set p")
        (simp_all add: urlMatches_star urlMatches_plain wildcard_spec_def del: segments.simps)
  qed
  with one_line_any [OF assms, of pattern] show ?thesis by simp
qed

subsection \<open>Claim C9: the pattern matcher\<close>

text \<open>
  C9 (as the code has it). For every url and every pattern, \<^verbatim>\<open>urlMatches\<close> returns a
  boolean, and it is true exactly when: there is no pattern (or the empty one); or the
  pattern contains \<^verbatim>\<open>*\<close> and the url contains the pattern's literal segments in order,
  every other character of the pattern taken literally, where each \<^verbatim>\<open>*\<close> stands for a
  substring without line terminator (U+000A, U+000D, U+2028, U+2029); or the pattern has
  no \<^verbatim>\<open>*\<close> and the url contains it as a substring.
\<close>

theorem urlMatches_exact:
  "urlMatches url pattern = Some (wildcard_spec one_line url pattern)"
proof (cases pattern)
  case None
  then show ?thesis by (simp add: urlMatches_absent wildcard_spec_def)
next
  case (Some p)
  show ?thesis
  proof (cases "star \<in> set p")
    case True
    with Some show ?thesis
      by (simp add: urlMatches_star wildcard_spec_def del: segments.simps)
  next
    case False
    with Some show ?thesis
      by (simp add: urlMatches_plain wildcard_spec_def)
  qed
qed

theorem urlMatches_exact_witness:
  "urlMatches [0x61, 0x78, 0x79, 0x62] (Some [0x61, 0x2A, 0x62]) = Some True \<and>
   wildcard_spec one_line [0x61, 0x78, 0x79, 0x62] (Some [0x61, 0x2A, 0x62])"
proof -
  have "urlMatches [0x61, 0x78, 0x79, 0x62] (Some [0x61, 0x2A, 0x62]) = Some True"
    by (simp add: urlMatches_def star_def dot_def backslash_def special_def LineTerminator_def)
  with urlMatches_exact [of "[0x61, 0x78, 0x79, 0x62]" "Some [0x61, 0x2A, 0x62]"]
  show ?thesis by simp
qed

text \<open>
  C9 as stated lets \<^verbatim>\<open>*\<close> stand for any substring. The url \<^verbatim>\<open>a\nb\<close> contains the
  segments of \<^verbatim>\<open>a*b\<close> in order, and \<^verbatim>\<open>urlMatches\<close> returns false on it: \<^verbatim>\<open>.\<close> does not
  match the line feed.
\<close>

theorem urlMatches_newline_counterexample:
  "wildcard_spec any_substring [0x61, 0x0A, 0x62] (Some [0x61, 0x2A, 0x62]) \<and>
   urlMatches [0x61, 0x0A, 0x62] (Some [0x61, 0x2A, 0x62]) = Some False"
proof
  have "length [[0x0A::16 word]] + 1 = length (segments [0x61, 0x2A, 0x62]) \<and>
      (\<forall>g \<in> set [[0x0A::16 word]]. any_substring g) \<and>
      [0x61, 0x0A, 0x62] = [] @ interleave (segments [0x61, 0x2A, 0x62]) [[0x0A]] @ []"
    by (simp add: star_def any_substring_def)
  then have "\<exists>pre gaps post. length gaps + 1 = length (segments [0x61, 0x2A, 0x62]) \<and>
      (\<forall>g \<in> set gaps. any_substring g) \<and>
      [0x61, 0x0A, 0x62] = pre @ interleave (segments [0x61, 0x2A, 0x62]) gaps @ post"
    by blast
  then show "wildcard_spec any_substring [0x61, 0x0A, 0x62] (Some [0x61, 0x2A, 0x62])"
    by (simp add: wildcard_spec_def star_def del: segments.simps)
  show "urlMatches [0x61, 0x0A, 0x62] (Some [0x61, 0x2A, 0x62]) = Some False"
    by (simp add: urlMatches_def star_def dot_def backslash_def special_def LineTerminator_def)
qed


lemma ping_request_simps:
  "req_method ping_request = ''POST''" "req_url ping_request = ''/api/command''"
  "req_body ping_request = Parses (JObject [(''command'', JString ''ping'')])"
  by (simp_all add: ping_request_def)

lemma ping_command:
  "get_prop (JObject [(''command'', JString ''ping'')]) ''command'' = Inr (Some (JString ''ping''))"
  "truthy (Some (JString ''ping''))"
  "command_log (JObject [(''command'', JString ''ping'')]) = Inr ''[HTTP] Command: ping''"
  by (simp_all add: command_log_def)

text \<open>A body \<^verbatim>\<open>null\<close> parses, and reading its \<^verbatim>\<open>command\<close> raises: the caller gets 500.\<close>

lemma null_body_500:
  assumes "req_method req = ''POST''" "req_url req = ''/api/command''" "req_body req = Parses JNull"
  shows "replies (step (Http req now send_throws) s) (nextCaller s) =
     Some \<lparr>status = 500, payload = Some (JObject [(''success'', JBool False),
       (''error'', JString (''Cannot read properties of null (reading '' @ [CHR 0x27] @ ''command'' @ [CHR 0x27] @ '')''))])\<rparr>"
  using assms
  by (simp add: handleRequest_post command_try_def reply_error_def write_reply_def log_line_def)

text \<open>
  A truthy \<^verbatim>\<open>command\<close> (or \<^verbatim>\<open>url\<close>) whose conversion to a string raises: the
  exception leaves the \<^verbatim>\<open>try\<close> block at the log line, after the id counter was incremented;
  the caller gets 500 and \<^verbatim>\<open>sendToExtension\<close> is not called.
\<close>

lemma unprintable_command_500:
  assumes "req_method req = ''POST''" "req_url req = ''/api/command''"
    "req_body req = Parses request" "get_prop request ''command'' = Inr cmd" "truthy cmd"
    "command_log request = Inl e" "s' = step (Http req now send_throws) s"
  shows "replies s' (nextCaller s) = Some \<lparr>status = 500,
           payload = Some (JObject [(''success'', JBool False), (''error'', JString (message e))])\<rparr> \<and>
         pendingRequest s' = pendingRequest s \<and> timers s' = timers s \<and> sent s' = sent s \<and>
         promises s' = promises s \<and> requestIdCounter s' = Suc (requestIdCounter s)"
  using assms(7) handleRequest_log_raises [OF assms(1-6)]
  by (simp add: reply_error_def write_reply_def log_line_def)

text \<open>The \<^verbatim>\<open>close\<close> handler answers the caller of the entry in the slot at once.\<close>

lemma close_rejects_entry:
  assumes "relay_inv s" "pendingRequest s = Some p" "alive s k" "s' = step (Close k) s"
  shows "promises s (resolve_reject p) = None \<and>
         promises s' (resolve_reject p) = Some (Rejected (Error ''Extension disconnected'')) \<and>
         replies s' (resolve_reject p) = Some \<lparr>status = 500,
           payload = Some (JObject [(''success'', JBool False),
                                    (''error'', JString ''Extension disconnected'')])\<rparr> \<and>
         pendingRequest s' = None \<and> extensionSocket s' = None"
proof -
  from assms(1,2) have u: "promises s (resolve_reject p) = None"
    unfolding relay_inv_def by auto
  let ?s1 = "(log_line ''[WebSocket] Extension disconnected'' (s\<lparr>readyState := (readyState s)(k \<mapsto> 3)\<rparr>))
                \<lparr>extensionSocket := None\<rparr>"
  have "s' = (reject (resolve_reject p) (Error ''Extension disconnected'') ?s1)\<lparr>pendingRequest := None\<rparr>"
    using assms(2,3,4) by (simp add: on_close_def Let_def log_line_def)
  then show ?thesis using u by (simp add: reject_unsettled log_line_def)
qed

subsection \<open>Claim C5: no executor connected\<close>

text \<open>
  C5. In a reachable state where no executor is connected (no stored socket, or the stored
  socket is not OPEN), a \<^verbatim>\<open>POST /api/command\<close> with a command that reaches
  \<^verbatim>\<open>sendToExtension\<close> (its log line is printed) is answered in the same step: the promise
  is rejected with \<^verbatim>\<open>Extension not connected\<close>, the caller gets the body
  \<^verbatim>\<open>{"success": false, "error": "Extension not connected"}\<close> (status 500), no entry is
  registered, no timer is armed and nothing is sent. (A command or url that cannot be
  converted to a string for the log line never reaches \<^verbatim>\<open>sendToExtension\<close>, see
  \<open>unprintable_command_500\<close>.)
\<close>

theorem not_connected_rejects:
  assumes "s = run es init_state" "\<not> isConnected s"
    "req_method req = ''POST''" "req_url req = ''/api/command''"
    "req_body req = Parses request" "get_prop request ''command'' = Inr cmd" "truthy cmd"
    "command_log request = Inr l"
    "s' = step (Http req now send_throws) s"
  shows "replies s' (nextCaller s) = Some \<lparr>status = 500,
           payload = Some (JObject [(''success'', JBool False),
                                    (''error'', JString ''Extension not connected'')])\<rparr> \<and>
         promises s' (nextCaller s) = Some (Rejected (Error ''Extension not connected'')) \<and>
         pendingRequest s' = pendingRequest s \<and> timers s' = timers s \<and> sent s' = sent s"
proof -
  let ?s2 = "log_line l
          (s\<lparr>nextCaller := Suc (nextCaller s), requestIdCounter := Suc (requestIdCounter s)\<rparr>)"
  have "relay_inv s" using assms(1) by (simp add: inv_reachable)
  then have f: "promises ?s2 (nextCaller s) = None" by (simp add: fresh_caller log_line_def)
  have nc: "\<not> isConnected ?s2"
    using assms(2) by (simp add: isConnected_def log_line_def split: option.splits)
  have "s' = reject (nextCaller s) (Error ''Extension not connected'') ?s2"
    using assms(9) handleRequest_command [OF assms(3-8)] sendToExtension_not_connected [OF nc]
    by simp
  then show ?thesis using f by (simp add: reject_unsettled log_line_def)
qed

theorem not_connected_rejects_witness:
  "extensionSocket (run [Connection 0, Closing 0] init_state) = Some 0 \<and>
   \<not> isConnected (run [Connection 0, Closing 0] init_state) \<and>
   replies (step (Http ping_request 5 None) (run [Connection 0, Closing 0] init_state)) 0 =
     Some \<lparr>status = 500, payload = Some (JObject [(''success'', JBool False),
                                    (''error'', JString ''Extension not connected'')])\<rparr> \<and>
   pendingRequest (step (Http ping_request 5 None) (run [Connection 0, Closing 0] init_state)) = None \<and>
   sent (step (Http ping_request 5 None) (run [Connection 0, Closing 0] init_state)) = []"
proof -
  let ?s = "run [Connection 0, Closing 0] init_state"
  have h2: "\<not> isConnected ?s" and e: "extensionSocket ?s = Some 0" and n: "nextCaller ?s = 0"
    and p: "pendingRequest ?s = None" and t: "sent ?s = []"
    by (simp_all add: relay_defs)
  from not_connected_rejects [OF refl h2 ping_request_simps ping_command refl, of 5 None] h2 e n p t
  show ?thesis by simp
qed

subsection \<open>Claim C8: missing command\<close>



subsection \<open>Claim C6: responses that match no pending entry\<close>

text \<open>
  C6. A parsed response that arrives when the slot is empty, or whose \<^verbatim>\<open>id\<close> is not the id
  of the entry in the slot, changes nothing: the state after the message handler is the
  state before it (entry, timers, connection slot, promises, replies).
\<close>

theorem unmatched_response_dropped:
  assumes "pendingRequest s = None \<or>
     (\<exists>p i. pendingRequest s = Some p \<and> get_prop response ''id'' = Inr i \<and>
        i \<noteq> Some (JString (req_id p)))"
  shows "step (Message k (Parses response)) s = s"
  using assms
  by (auto simp add: handleExtensionResponse_def handleExtensionResponse_try_def)

theorem unmatched_response_dropped_witness:
  "step (Message 0 (Parses (JObject [(''id'', JString ''req-9-9''), (''success'', JBool True), (''data'', JNumber ''1'')])))
     (run [Connection 0, Http ping_request 5 None] init_state) =
   run [Connection 0, Http ping_request 5 None] init_state"
proof -
  let ?s = "run [Connection 0, Http ping_request 5 None] init_state"
  let ?r = "JObject [(''id'', JString ''req-9-9''), (''success'', JBool True), (''data'', JNumber ''1'')]"
  have p: "pendingRequest ?s = Some \<lparr>req_id = ''req-5-1'', resolve_reject = 0, timeout = 0\<rparr>"
    by (simp add: relay_defs ping_request_def)
  have "pendingRequest ?s = Some \<lparr>req_id = ''req-5-1'', resolve_reject = 0, timeout = 0\<rparr> \<and>
      get_prop ?r ''id'' = Inr (Some (JString ''req-9-9'')) \<and>
      Some (JString ''req-9-9'') \<noteq> Some (JString (req_id \<lparr>req_id = ''req-5-1'', resolve_reject = 0, timeout = 0\<rparr>))"
    using p by simp
  then have "pendingRequest ?s = None \<or>
     (\<exists>p i. pendingRequest ?s = Some p \<and> get_prop ?r ''id'' = Inr i \<and> i \<noteq> Some (JString (req_id p)))"
    by blast
  then show ?thesis by (rule unmatched_response_dropped)
qed

subsection \<open>Claim C7: frames that do not parse\<close>

text \<open>
  C7. On a frame that \<^verbatim>\<open>JSON.parse\<close> rejects, the \<^verbatim>\<open>try\<close> block raises the
  \<^verbatim>\<open>SyntaxError\<close>, the \<^verbatim>\<open>catch\<close> logs it, and the handler returns: the state is the old
  one with one more console line, so the pending entry, the timers, the promises and the
  replies are untouched.
\<close>

theorem malformed_frame_discarded:
  "handleExtensionResponse_try (Unparseable m) s = Inl (SyntaxError m, s) \<and>
   handleExtensionResponse (Unparseable m) s =
     s\<lparr>console := console s @ [''[WebSocket] Error parsing response: '' @ m]\<rparr> \<and>
   step (Message k (Unparseable m)) s =
     (if alive s k then s\<lparr>console := console s @ [''[WebSocket] Error parsing response: '' @ m]\<rparr>
      else s)"
  by (simp add: handleExtensionResponse_def handleExtensionResponse_try_def log_line_def)

theorem malformed_frame_discarded_witness:
  "pendingRequest (step (Message 0 (Unparseable ''Unexpected token''))
      (run [Connection 0, Http ping_request 5 None] init_state)) =
     Some \<lparr>req_id = ''req-5-1'', resolve_reject = 0, timeout = 0\<rparr> \<and>
   promises (step (Message 0 (Unparseable ''Unexpected token''))
      (run [Connection 0, Http ping_request 5 None] init_state)) 0 = None"
proof -
  let ?s = "run [Connection 0, Http ping_request 5 None] init_state"
  have p: "pendingRequest ?s = Some \<lparr>req_id = ''req-5-1'', resolve_reject = 0, timeout = 0\<rparr>"
    and q: "promises ?s 0 = None"
    by (simp_all add: relay_defs ping_request_def)
  from malformed_frame_discarded [of "''Unexpected token''" ?s 0] p q
  show ?thesis by (simp split: if_splits)
qed

subsection \<open>Claim C3: a close rejects the pending request\<close>

text \<open>
  C3 asks that a pending request be rejected on disconnect before its deadline. The
  \<^verbatim>\<open>close\<close> handler does reject the entry in the slot at once (\<open>close_rejects_entry\<close>),
  but the entry need not be within its deadline any more. On the trace below the executor
  answers a command with a failure whose \<^verbatim>\<open>data\<close> is \<^verbatim>\<open>{"toString": 1}\<close>: the handler
  cancels the timer, \<^verbatim>\<open>new Error(response.data)\<close> raises, and the \<^verbatim>\<open>catch\<close> only logs. The
  entry stays in the slot with no timer and the caller has no answer; when the deadline
  of timer 0 comes nothing happens; the caller is answered only when the socket closes,
  however late that is.
\<close>

theorem disconnect_after_cancelled_timer:
  "pendingRequest (run [Connection 0, Http ping_request 5 None,
       Message 0 (Parses (JObject [(''id'', JString ''req-5-1''), (''success'', JBool False),
                                   (''data'', JObject [(''toString'', JNumber ''1'')])]))] init_state) =
     Some \<lparr>req_id = ''req-5-1'', resolve_reject = 0, timeout = 0\<rparr> \<and>
   timers (run [Connection 0, Http ping_request 5 None,
       Message 0 (Parses (JObject [(''id'', JString ''req-5-1''), (''success'', JBool False),
                                   (''data'', JObject [(''toString'', JNumber ''1'')])]))] init_state) 0 = None \<and>
   replies (run [Connection 0, Http ping_request 5 None,
       Message 0 (Parses (JObject [(''id'', JString ''req-5-1''), (''success'', JBool False),
                                   (''data'', JObject [(''toString'', JNumber ''1'')])])),
       Timeout 0] init_state) 0 = None \<and>
   pendingRequest (run [Connection 0, Http ping_request 5 None,
       Message 0 (Parses (JObject [(''id'', JString ''req-5-1''), (''success'', JBool False),
                                   (''data'', JObject [(''toString'', JNumber ''1'')])])),
       Timeout 0] init_state) =
     Some \<lparr>req_id = ''req-5-1'', resolve_reject = 0, timeout = 0\<rparr> \<and>
   replies (run [Connection 0, Http ping_request 5 None,
       Message 0 (Parses (JObject [(''id'', JString ''req-5-1''), (''success'', JBool False),
                                   (''data'', JObject [(''toString'', JNumber ''1'')])])),
       Timeout 0, Close 0] init_state) 0 =
     Some \<lparr>status = 500, payload = Some (JObject [(''success'', JBool False),
              (''error'', JString ''Extension disconnected'')])\<rparr>"
  by (simp add: relay_defs ping_request_def)

subsection \<open>Claim C10: the close of a replaced socket\<close>

text \<open>
  C10. When the stored socket \<open>k2\<close> is OPEN and an older socket \<open>k1\<close> emits \<^verbatim>\<open>close\<close>,
  the handler still clears the connection slot and the request slot: \<^verbatim>\<open>isConnected()\<close> was
  true and is false afterwards although \<open>k2\<close> is still OPEN, and a pending request is
  rejected with \<^verbatim>\<open>Extension disconnected\<close>.
\<close>

theorem stale_close_clears_connection:
  assumes "s = run es init_state" "extensionSocket s = Some k2" "readyState s k2 = Some 1"
    "k1 \<noteq> k2" "alive s k1" "s' = step (Close k1) s"
  shows "isConnected s \<and> extensionSocket s' = None \<and> \<not> isConnected s' \<and>
         readyState s' k2 = Some 1 \<and> pendingRequest s' = None \<and>
         (\<forall>p. pendingRequest s = Some p \<longrightarrow>
            promises s' (resolve_reject p) = Some (Rejected (Error ''Extension disconnected'')))"
proof -
  have "relay_inv s" using assms(1) by (simp add: inv_reachable)
  then have u: "pendingRequest s = Some p \<Longrightarrow> promises s (resolve_reject p) = None" for p
    unfolding relay_inv_def by auto
  have s': "s' = on_close (s\<lparr>readyState := (readyState s)(k1 \<mapsto> 3)\<rparr>)"
    using assms(5,6) by simp
  have c: "isConnected s" using assms(2,3) by (simp add: isConnected_def)
  have 1: "extensionSocket s' = None \<and> \<not> isConnected s' \<and> readyState s' k2 = Some 1 \<and> pendingRequest s' = None"
    using assms(3,4) unfolding s'
    by (cases "pendingRequest s") (simp_all add: on_close_def Let_def isConnected_def prim_defs)
  have 2: "promises s' (resolve_reject p) = Some (Rejected (Error ''Extension disconnected''))"
    if "pendingRequest s = Some p" for p
    using that u [OF that] unfolding s'
    by (simp add: on_close_def Let_def prim_defs)
  show ?thesis using c 1 2 by blast
qed

theorem stale_close_clears_connection_witness:
  "extensionSocket (run [Connection 0, Connection 1, Http ping_request 5 None] init_state) = Some 1 \<and>
   \<not> isConnected (step (Close 0) (run [Connection 0, Connection 1, Http ping_request 5 None] init_state)) \<and>
   readyState (step (Close 0) (run [Connection 0, Connection 1, Http ping_request 5 None] init_state)) 1 = Some 1 \<and>
   promises (step (Close 0) (run [Connection 0, Connection 1, Http ping_request 5 None] init_state)) 0 =
     Some (Rejected (Error ''Extension disconnected''))"
proof -
  let ?s = "run [Connection 0, Connection 1, Http ping_request 5 None] init_state"
  have p: "pendingRequest ?s = Some \<lparr>req_id = ''req-5-1'', resolve_reject = 0, timeout = 0\<rparr>"
    and e: "extensionSocket ?s = Some 1" and r: "readyState ?s 1 = Some 1"
    and a: "alive ?s 0"
    by (simp_all add: relay_defs ping_request_def)
  have n: "(0::nat) \<noteq> 1" by simp
  from stale_close_clears_connection [OF refl e r n a refl] p e show ?thesis by simp
qed

subsection \<open>Claim C1: a matching response reaches the caller\<close>

text \<open>
  C1 (as the code has it). A command whose log line is printed is submitted in a reachable
  state while the executor is connected, and the send does not raise: one frame with the
  fresh id goes out. If, after any further events, the entry of that command is still the
  one in the slot and a parsed response with that id arrives, then the caller is answered
  in that step, the entry's timer is cancelled and the slot is cleared. With a truthy
  \<^verbatim>\<open>success\<close> the answer is 200 with \<^verbatim>\<open>JSON.stringify\<close> of the response itself
  (\<^verbatim>\<open>id\<close>, \<^verbatim>\<open>success\<close>, \<^verbatim>\<open>data\<close>); otherwise it is 500 with
  \<^verbatim>\<open>{"success": false, "error": m}\<close>, where \<open>m\<close> is the string form of \<^verbatim>\<open>data\<close> if
  \<^verbatim>\<open>data\<close> is truthy and \<^verbatim>\<open>Unknown error\<close> if it is not. (A failure whose \<^verbatim>\<open>data\<close> has
  no string form is not covered here, see \<open>response_raises\<close>.)
\<close>

theorem matching_response_delivered:
  assumes "s = run es init_state" "isConnected s"
    "req_method req = ''POST''" "req_url req = ''/api/command''"
    "req_body req = Parses request" "get_prop request ''command'' = Inr cmd" "truthy cmd"
    "command_log request = Inr l"
    "s1 = step (Http req now None) s"
    "s2 = run es' s1" "pendingRequest s2 = pendingRequest s1"
    "get_prop response ''id'' = Inr (Some (JString (fst (generateRequestId now s))))"
    "truthy (field response ''success'') \<or>
     ToString (or_else (field response ''data'') (JString ''Unknown error'')) = Inr m"
    "alive s2 k" "s3 = step (Message k (Parses response)) s2"
  shows "(\<exists>sock. sent s1 = sent s @ [(sock, set_prop request ''id'' (JString (fst (generateRequestId now s))))]) \<and>
         replies s3 (nextCaller s) =
           Some (if truthy (field response ''success'')
                 then \<lparr>status = 200, payload = Some response\<rparr>
                 else \<lparr>status = 500, payload = Some (JObject [(''success'', JBool False),
                                                              (''error'', JString m)])\<rparr>) \<and>
         pendingRequest s3 = None \<and> timers s3 (nextTimer s) = None"
proof -
  from assms(2) obtain sock where k: "extensionSocket s = Some sock" "readyState s sock = Some 1"
    by (auto simp add: isConnected_def split: option.splits)
  note s1 = submit_connected [OF k assms(3-8), of now, folded assms(9)]
  let ?p = "\<lparr>req_id = fst (generateRequestId now s), resolve_reject = nextCaller s,
             timeout = nextTimer s\<rparr>"
  have p1: "pendingRequest s1 = Some ?p" by (simp add: s1)
  then have p2: "pendingRequest s2 = Some ?p" using assms(11) by simp
  have "s2 = run (es @ Http req now None # es') init_state"
    using assms(1,9,10) by (simp add: run_append)
  then have "relay_inv s2" by (simp add: inv_reachable)
  with p2 have u: "promises s2 (resolve_reject ?p) = None"
    unfolding relay_inv_def by blast
  have i: "get_prop response ''id'' = Inr (Some (JString (req_id ?p)))" using assms(12) by simp
  have s3: "s3 = handleExtensionResponse (Parses response) s2" using assms(14,15) by simp
  have sent: "sent s1 = sent s @ [(sock, set_prop request ''id'' (JString (fst (generateRequestId now s))))]"
    by (simp add: s1)
  have out: "replies s3 (nextCaller s) =
           Some (if truthy (field response ''success'')
                 then \<lparr>status = 200, payload = Some response\<rparr>
                 else \<lparr>status = 500, payload = Some (JObject [(''success'', JBool False),
                                                              (''error'', JString m)])\<rparr>) \<and>
         pendingRequest s3 = None \<and> timers s3 (nextTimer s) = None"
  proof (cases "truthy (field response ''success'')")
    case True
    show ?thesis unfolding s3 response_success [OF p2 u i True] using True by simp
  next
    case False
    with assms(13) have m: "ToString (or_else (field response ''data'') (JString ''Unknown error'')) = Inr m"
      by simp
    show ?thesis unfolding s3 response_failure [OF p2 u i False m] using False by simp
  qed
  from sent out show ?thesis by blast
qed

theorem matching_response_delivered_witness:
  "isConnected (run [Connection 0] init_state) \<and>
   replies (run [Connection 0, Http ping_request 5 None, Message 0 (Unparseable ''Unexpected token''),
                 Message 0 (Parses (JObject [(''id'', JString ''req-5-1''), (''success'', JBool True),
                                             (''data'', JString ''pong'')]))] init_state) 0 =
     Some \<lparr>status = 200, payload = Some (JObject [(''id'', JString ''req-5-1''),
              (''success'', JBool True), (''data'', JString ''pong'')])\<rparr> \<and>
   replies (run [Connection 0, Http ping_request 5 None, Message 0 (Unparseable ''Unexpected token''),
                 Message 0 (Parses (JObject [(''id'', JString ''req-5-1''), (''success'', JBool False),
                                             (''data'', JString ''No such tab'')]))] init_state) 0 =
     Some \<lparr>status = 500, payload = Some (JObject [(''success'', JBool False),
              (''error'', JString ''No such tab'')])\<rparr>"
proof -
  let ?s = "run [Connection 0] init_state"
  let ?s1 = "step (Http ping_request 5 None) ?s"
  let ?s2 = "run [Message 0 (Unparseable ''Unexpected token'')] ?s1"
  let ?r = "JObject [(''id'', JString ''req-5-1''), (''success'', JBool True), (''data'', JString ''pong'')]"
  let ?f = "JObject [(''id'', JString ''req-5-1''), (''success'', JBool False), (''data'', JString ''No such tab'')]"
  have c: "isConnected ?s" by (simp add: relay_defs)
  have same: "pendingRequest ?s2 = pendingRequest ?s1" by (simp add: relay_defs ping_request_def)
  have i: "get_prop ?r ''id'' = Inr (Some (JString (fst (generateRequestId 5 ?s))))"
    and j: "get_prop ?f ''id'' = Inr (Some (JString (fst (generateRequestId 5 ?s))))"
    by (simp_all add: relay_defs)
  have okr: "truthy (field ?r ''success'') \<or>
      ToString (or_else (field ?r ''data'') (JString ''Unknown error'')) = Inr ''pong''"
    and okf: "truthy (field ?f ''success'') \<or>
      ToString (or_else (field ?f ''data'') (JString ''Unknown error'')) = Inr ''No such tab''"
    by simp_all
  have a: "alive ?s2 0" by (simp add: relay_defs ping_request_def)
  from matching_response_delivered [OF refl c ping_request_simps ping_command refl refl same i okr a refl]
       matching_response_delivered [OF refl c ping_request_simps ping_command refl refl same j okf a refl] c
  show ?thesis by (simp add: init_state_def on_connection_def log_line_def)
qed

text \<open>
  C1 as stated promises the caller the response's \<^verbatim>\<open>data\<close> also when \<^verbatim>\<open>success\<close> is
  false. A failure response whose \<^verbatim>\<open>data\<close> is the empty string reaches the caller as
  \<^verbatim>\<open>Unknown error\<close>.
\<close>

theorem falsy_error_data_counterexample:
  "replies (run [Connection 0, Http ping_request 5 None,
                 Message 0 (Parses (JObject [(''id'', JString ''req-5-1''), (''success'', JBool False),
                                             (''data'', JString [])]))] init_state) 0 =
     Some \<lparr>status = 500, payload = Some (JObject [(''success'', JBool False),
              (''error'', JString ''Unknown error'')])\<rparr>"
  by (simp add: relay_defs ping_request_def)

subsection \<open>Claim C2: a second command while one is pending\<close>

text \<open>
  C2 (as the code has it). The slot is one variable, so it holds at most one entry. A
  command whose log line is printed, submitted while an entry \<open>p1\<close> is in the slot
  (executor connected, send does not raise), replaces \<open>p1\<close> by the entry of the new caller
  and leaves the timer of \<open>p1\<close> as it is. From then on no response and no close can reach
  the first caller: whatever happens next, its promise is either unsettled or rejected
  with \<^verbatim>\<open>Request timeout\<close>. If its timer is armed, that timer is what answers it, and the
  timer's callback also empties the slot, which by then holds another caller's entry.
\<close>

theorem overwrite_orphans_first_caller:
  assumes "s = run es init_state" "pendingRequest s = Some p1" "isConnected s"
    "req_method req = ''POST''" "req_url req = ''/api/command''"
    "req_body req = Parses request" "get_prop request ''command'' = Inr cmd" "truthy cmd"
    "command_log request = Inr l"
    "s1 = step (Http req now None) s"
  shows "pendingRequest s1 = Some \<lparr>req_id = fst (generateRequestId now s),
                                    resolve_reject = nextCaller s, timeout = nextTimer s\<rparr> \<and>
         resolve_reject p1 \<noteq> nextCaller s \<and>
         timers s1 (timeout p1) = timers s (timeout p1) \<and>
         promises s1 (resolve_reject p1) = None \<and>
         (\<forall>es'. promises (run es' s1) (resolve_reject p1) = None \<or>
                promises (run es' s1) (resolve_reject p1) = Some (Rejected (Error ''Request timeout''))) \<and>
         (timers s (timeout p1) \<noteq> None \<longrightarrow>
            timers s1 (timeout p1) = Some \<lparr>rejects = resolve_reject p1, delay_ms = 10000\<rparr> \<and>
            promises (step (Timeout (timeout p1)) s1) (resolve_reject p1) =
              Some (Rejected (Error ''Request timeout'')) \<and>
            pendingRequest (step (Timeout (timeout p1)) s1) = None)"
proof -
  let ?c = "resolve_reject p1"
  from assms(3) obtain sock where k: "extensionSocket s = Some sock" "readyState s sock = Some 1"
    by (auto simp add: isConnected_def split: option.splits)
  note s1 = submit_connected [OF k assms(4-9), of now, folded assms(10)]
  have "relay_inv s" using assms(1) by (simp add: inv_reachable)
  with assms(2) have t: "timers s (timeout p1) = None \<or>
        timers s (timeout p1) = Some \<lparr>rejects = ?c, delay_ms = 10000\<rparr>"
    and u: "promises s ?c = None" and lt: "?c < nextCaller s" and tl: "timeout p1 < nextTimer s"
    unfolding relay_inv_def by blast+
  have 1: "pendingRequest s1 = Some \<lparr>req_id = fst (generateRequestId now s),
                                    resolve_reject = nextCaller s, timeout = nextTimer s\<rparr>"
    by (simp add: s1)
  have 2: "?c \<noteq> nextCaller s" using lt by simp
  have 3: "timers s1 (timeout p1) = timers s (timeout p1)"
    using tl by (simp add: s1)
  have 4: "promises s1 ?c = None" using u by (simp add: s1)
  have o: "answered_only_by_timeout ?c s1"
    using 2 lt 4 by (simp add: answered_only_by_timeout_def s1)
  have 5: "promises (run es' s1) ?c = None \<or>
        promises (run es' s1) ?c = Some (Rejected (Error ''Request timeout''))" for es'
    using orphan_run [OF o, of es'] by (simp add: answered_only_by_timeout_def)
  have 6: "timers s1 (timeout p1) = Some \<lparr>rejects = ?c, delay_ms = 10000\<rparr> \<and>
      promises (step (Timeout (timeout p1)) s1) ?c = Some (Rejected (Error ''Request timeout'')) \<and>
      pendingRequest (step (Timeout (timeout p1)) s1) = None"
    if armed: "timers s (timeout p1) \<noteq> None"
  proof -
    from armed t 3 have a: "timers s1 (timeout p1) = Some \<lparr>rejects = ?c, delay_ms = 10000\<rparr>"
      by auto
    then have f: "step (Timeout (timeout p1)) s1 =
        on_timeout ?c (s1\<lparr>timers := (timers s1)(timeout p1 := None)\<rparr>)"
      by simp
    have "promises (step (Timeout (timeout p1)) s1) ?c = Some (Rejected (Error ''Request timeout''))"
      and "pendingRequest (step (Timeout (timeout p1)) s1) = None"
      unfolding f using 4 by (simp_all add: on_timeout_def reject_unsettled)
    with a show ?thesis by blast
  qed
  from 1 2 3 4 5 6 show ?thesis by blast
qed

theorem overwrite_orphans_first_caller_witness:
  "pendingRequest (run [Connection 0, Http ping_request 5 None] init_state) =
     Some \<lparr>req_id = ''req-5-1'', resolve_reject = 0, timeout = 0\<rparr> \<and>
   isConnected (run [Connection 0, Http ping_request 5 None] init_state) \<and>
   timers (run [Connection 0, Http ping_request 5 None] init_state) 0 \<noteq> None \<and>
   pendingRequest (step (Http ping_request 6 None) (run [Connection 0, Http ping_request 5 None] init_state)) =
     Some \<lparr>req_id = ''req-6-2'', resolve_reject = 1, timeout = 1\<rparr> \<and>
   timers (step (Http ping_request 6 None) (run [Connection 0, Http ping_request 5 None] init_state)) 0 =
     Some \<lparr>rejects = 0, delay_ms = 10000\<rparr> \<and>
   promises (step (Timeout 0)
      (step (Http ping_request 6 None) (run [Connection 0, Http ping_request 5 None] init_state))) 0 =
     Some (Rejected (Error ''Request timeout'')) \<and>
   pendingRequest (step (Timeout 0)
      (step (Http ping_request 6 None) (run [Connection 0, Http ping_request 5 None] init_state))) = None"
proof -
  define s where "s = run [Connection 0, Http ping_request 5 None] init_state"
  define s1 where "s1 = step (Http ping_request 6 None) s"
  have p: "pendingRequest s = Some \<lparr>req_id = ''req-5-1'', resolve_reject = 0, timeout = 0\<rparr>"
    and c: "isConnected s" and n: "nextCaller s = 1" and t: "nextTimer s = 1"
    and g: "fst (generateRequestId 6 s) = ''req-6-2''"
    and a: "timers s 0 \<noteq> None"
    unfolding s_def by (simp_all add: relay_defs ping_request_def)
  note th = overwrite_orphans_first_caller [OF s_def p c ping_request_simps ping_command s1_def,
      unfolded n t g pending.simps]
  from th have "pendingRequest s1 = Some \<lparr>req_id = ''req-6-2'', resolve_reject = 1, timeout = 1\<rparr>"
    by (rule conjunct1)
  moreover from th a have "timers s1 0 = Some \<lparr>rejects = 0, delay_ms = 10000\<rparr> \<and>
       promises (step (Timeout 0) s1) 0 = Some (Rejected (Error ''Request timeout'')) \<and>
       pendingRequest (step (Timeout 0) s1) = None"
    by blast
  ultimately have "pendingRequest s1 = Some \<lparr>req_id = ''req-6-2'', resolve_reject = 1, timeout = 1\<rparr>"
    and "timers s1 0 = Some \<lparr>rejects = 0, delay_ms = 10000\<rparr>"
    and "promises (step (Timeout 0) s1) 0 = Some (Rejected (Error ''Request timeout''))"
    and "pendingRequest (step (Timeout 0) s1) = None"
    by blast+
  with p c a have "pendingRequest s = Some \<lparr>req_id = ''req-5-1'', resolve_reject = 0, timeout = 0\<rparr> \<and>
      isConnected s \<and> timers s 0 \<noteq> None \<and>
      pendingRequest s1 = Some \<lparr>req_id = ''req-6-2'', resolve_reject = 1, timeout = 1\<rparr> \<and>
      timers s1 0 = Some \<lparr>rejects = 0, delay_ms = 10000\<rparr> \<and>
      promises (step (Timeout 0) s1) 0 = Some (Rejected (Error ''Request timeout'')) \<and>
      pendingRequest (step (Timeout 0) s1) = None"
    by blast
  then show ?thesis unfolding s1_def s_def .
qed

text \<open>
  C2 as stated says that the first caller never times out once it is overwritten. After
  two commands in a row the slot holds the second caller's entry and the first caller is
  still waiting; when the first timer fires, the first caller gets \<^verbatim>\<open>Request timeout\<close>.
\<close>

theorem overwritten_caller_times_out_counterexample:
  "pendingRequest (run [Connection 0, Http ping_request 5 None, Http ping_request 6 None] init_state) =
     Some \<lparr>req_id = ''req-6-2'', resolve_reject = 1, timeout = 1\<rparr> \<and>
   promises (run [Connection 0, Http ping_request 5 None, Http ping_request 6 None] init_state) 0 = None \<and>
   promises (run [Connection 0, Http ping_request 5 None, Http ping_request 6 None, Timeout 0] init_state) 0 =
     Some (Rejected (Error ''Request timeout'')) \<and>
   replies (run [Connection 0, Http ping_request 5 None, Http ping_request 6 None, Timeout 0] init_state) 0 =
     Some \<lparr>status = 500, payload = Some (JObject [(''success'', JBool False),
              (''error'', JString ''Request timeout'')])\<rparr>"
  by (simp add: relay_defs ping_request_def)

subsection \<open>Claim C4: the timer on the three resolution paths\<close>

text \<open>
  C4 asks that the timer be cancelled on every resolution path. The response path and the
  send-failure path call \<^verbatim>\<open>clearTimeout\<close> (\<open>response_success\<close>, \<open>response_failure\<close>,
  \<open>send_failure_cancels_timer\<close>); the \<^verbatim>\<open>close\<close> handler does not. On the trace below the
  executor disconnects while a request is pending: the request is rejected and its timer
  stays armed. The executor reconnects and a second command is sent; then the first timer
  fires and sets \<^verbatim>\<open>pendingRequest = null\<close>, so the executor's answer to the second command
  is dropped and the second caller gets \<^verbatim>\<open>Request timeout\<close> when its own timer fires.
\<close>

theorem close_leaves_timer_armed:
  "timers (run [Connection 0, Http ping_request 5 None, Close 0] init_state) 0 =
     Some \<lparr>rejects = 0, delay_ms = 10000\<rparr> \<and>
   promises (run [Connection 0, Http ping_request 5 None, Close 0] init_state) 0 =
     Some (Rejected (Error ''Extension disconnected'')) \<and>
   pendingRequest (run [Connection 0, Http ping_request 5 None, Close 0,
                        Connection 1, Http ping_request 6 None] init_state) =
     Some \<lparr>req_id = ''req-6-2'', resolve_reject = 1, timeout = 1\<rparr> \<and>
   pendingRequest (run [Connection 0, Http ping_request 5 None, Close 0,
                        Connection 1, Http ping_request 6 None, Timeout 0] init_state) = None \<and>
   replies (run [Connection 0, Http ping_request 5 None, Close 0,
                 Connection 1, Http ping_request 6 None, Timeout 0,
                 Message 1 (Parses (JObject [(''id'', JString ''req-6-2''), (''success'', JBool True),
                                             (''data'', JString ''pong'')]))] init_state) 1 = None \<and>
   replies (run [Connection 0, Http ping_request 5 None, Close 0,
                 Connection 1, Http ping_request 6 None, Timeout 0,
                 Message 1 (Parses (JObject [(''id'', JString ''req-6-2''), (''success'', JBool True),
                                             (''data'', JString ''pong'')])),
                 Timeout 1] init_state) 1 =
     Some \<lparr>status = 500, payload = Some (JObject [(''success'', JBool False),
              (''error'', JString ''Request timeout'')])\<rparr>"
  by (simp add: relay_defs ping_request_def)

end
